theory Spec2Isabelle
  imports Main "HOL-Library.AList" "HOL-Library.Char_ord" "HOL-Library.List_Lexorder"
begin

section \<open>Python values\<close>

text \<open>
  A Python \<open>dict\<close> keeps its keys unique and in insertion order: an association list.
  \<open>d[k] = v\<close> is \<open>AList.update k v d\<close> (an existing key keeps its position, a new key is
  appended), \<open>k in d\<close> is \<open>k \<in> fst ` set d\<close>, \<open>d.items()\<close> is the list itself.
\<close>

type_synonym ('k, 'v) dict = "('k \<times> 'v) list"

type_synonym Source = string

datatype ConfigurationLevel = STEP | PIPELINE

text \<open>
  The exceptions of \<open>compiler.py\<close>. The constructor of \<open>error\<close> is the exception class, its
  argument the content of the message (the f-strings print sets, whose order is unspecified,
  so the message is kept as data).
\<close>

datatype message =
    NoStepWithName string
  | InvalidRunName string "string set"
  | FormatString string
  | InvalidUpstreamSteps "string set" "string set"
  | UnsupportedLevel string ConfigurationLevel
  | MissingStepOperator string string string "string set"
  | MissingExperimentTracker string string string "string set"
  | CycleDetected "string list"
  | Message string

datatype error =
    KeyError message
  | RuntimeError message
  | TypeError message
  | ValueError message
  | StackValidationError message
  | AssertionError message
  | OtherException string message

section \<open>The data model\<close>

record BaseSettings =
  py_class :: string
  LEVEL :: "ConfigurationLevel set"
  field_values :: "(string, string) dict"

text \<open>
  The keyword arguments of \<open>configure\<close>, which are also the fields of a
  \<open>StepConfigurationUpdate\<close>: \<open>None\<close> is an argument that is not passed (a field not set).
\<close>

record ConfigurationUpdate =
  enable_cache :: "bool option"
  enable_artifact_metadata :: "bool option"
  enable_artifact_visualization :: "bool option"
  step_operator :: "string option"
  experiment_tracker :: "string option"
  settings :: "(string, BaseSettings) dict option"
  extra :: "(string, string) dict option"
  failure_hook_source :: "Source option"
  success_hook_source :: "Source option"

record PipelineRunConfiguration =
  run_name :: "string option"
  enable_cache :: "bool option"
  enable_artifact_metadata :: "bool option"
  enable_artifact_visualization :: "bool option"
  steps :: "(string, ConfigurationUpdate) dict"
  settings :: "(string, BaseSettings) dict"
  extra :: "(string, string) dict"

text \<open>
  \<open>Configuration\<close> holds the fields that a pipeline configuration and a step configuration
  share; a step configuration adds the two stack requirements.
\<close>

record Configuration =
  enable_cache :: "bool option"
  enable_artifact_metadata :: "bool option"
  enable_artifact_visualization :: "bool option"
  settings :: "(string, BaseSettings) dict"
  extra :: "(string, string) dict"
  failure_hook_source :: "Source option"
  success_hook_source :: "Source option"

record StepConfiguration = Configuration +
  step_operator :: "string option"
  experiment_tracker :: "string option"

record BaseStep =
  source :: Source
  configuration :: StepConfiguration

record StepArtifact =
  invocation_id :: string
  output_name :: string

text \<open>
  \<open>step\<close> is a reference: the identity of a step object in the \<open>step_objects\<close> of the
  pipeline that owns the invocation, so that two invocations may share one step object.
  \<open>inv_id\<close> is the attribute \<open>id\<close>.
\<close>

record StepInvocation =
  inv_id :: string
  step :: nat
  upstream_steps :: "string set"
  input_artifacts :: "(string, StepArtifact) dict"

text \<open>
  A pipeline object with the objects reachable from it. \<open>is_base_pipeline\<close> is
  \<open>isinstance(pipeline, BasePipeline)\<close>, \<open>source\<close> is what \<open>pipeline.resolve()\<close> returns
  (the source resolver is an external collaborator) and \<open>parameters\<close> is \<open>_parameters\<close>.
\<close>

record Pipeline =
  name :: string
  configuration :: Configuration
  invocations :: "(string, StepInvocation) dict"
  is_base_pipeline :: bool
  source :: Source
  parameters :: "(string, string) dict"
  step_objects :: "nat \<Rightarrow> BaseStep"

record InputSpec =
  step_name :: string
  output_name :: string

record StepSpec =
  source :: Source
  upstream_steps :: "string list"
  inputs :: "(string, InputSpec) dict"
  pipeline_parameter_name :: string

text \<open>
  The keyword arguments \<open>_compute_pipeline_spec\<close> passes to \<open>PipelineSpec\<close>: \<open>None\<close> is an
  argument that is not passed, where the default of the class applies.
\<close>

record PipelineSpec =
  version :: "string option"
  source :: "Source option"
  parameters :: "(string, string) dict option"
  steps :: "StepSpec list"

record Step =
  spec :: StepSpec
  config :: StepConfiguration

record PipelineDeploymentBaseModel =
  run_name_template :: string
  pipeline_configuration :: Configuration
  step_configurations :: "(string, Step) dict"
  client_environment :: "(string, string) dict"

text \<open>
  A settings class: its name, its \<open>LEVEL\<close> and the names of its \<open>__fields__\<close>. An attribute
  of a stack component's \<open>config\<close> carries what \<open>dict(exclude_unset=True,
  exclude_defaults=True)\<close> reads: whether it was set explicitly, and the default of its field.
\<close>

record SettingsClass =
  class_name :: string
  class_LEVEL :: "ConfigurationLevel set"
  class_fields :: "string list"

record ConfigAttribute =
  attr_value :: string
  is_set :: bool
  default_value :: string

record StackComponent =
  name :: string
  component_type :: string
  flavor :: string
  settings_class :: "SettingsClass option"
  config :: "(string, ConfigAttribute) dict"

record Stack =
  name :: string
  components :: "(string, StackComponent) dict"
  step_operator :: "StackComponent option"
  experiment_tracker :: "StackComponent option"

datatype log_record = NotIncludingSettings string

record heap =
  store :: "nat \<Rightarrow> Pipeline"
  next_free :: nat

section \<open>What the compiler takes from outside\<close>

text \<open>
  \<^item> \<open>set_iteration\<close> is the order in which Python iterates over a set (\<open>list(s)\<close>), which the
    language leaves unspecified;
  \<^item> \<open>resolve stack key settings\<close> is \<open>SettingsResolver(key, settings).resolve(stack)\<close>, whose
    class is not among the sources: it returns a settings instance or raises;
  \<^item> \<open>merge_default\<close> is the default of the \<open>merge\<close> argument of \<open>configure\<close> and
    \<open>_apply_configuration\<close>, declared outside the sources;
  \<^item> \<open>get_run_environment_dict\<close> is the snapshot of the client environment.
\<close>

record externals =
  set_iteration :: "string set \<Rightarrow> string list"
  resolve :: "Stack \<Rightarrow> string \<Rightarrow> BaseSettings \<Rightarrow> error + BaseSettings"
  merge_default :: bool
  get_run_environment_dict :: "(string, string) dict"

definition iterates_sets :: "externals \<Rightarrow> bool" where
  "iterates_sets ext = (\<forall>S. finite S \<longrightarrow> set (set_iteration ext S) = S)"

section \<open>Topological layering\<close>

text \<open>
  Modelled from the spec: \<open>zenml.orchestrators.topsort.topsorted_layers\<close> is not among the
  sources. The spec's layering engine: each layer holds, in the insertion order of the
  nodes, the nodes not yet placed all of whose parents lie in earlier layers (the
  minimal-depth layering); when no such node is left the layering ends, and nodes that were
  never placed are the residual of a cycle.
\<close>

definition resolved :: "('a \<Rightarrow> string) \<Rightarrow> ('a \<Rightarrow> 'a list) \<Rightarrow> string list \<Rightarrow> 'a \<Rightarrow> bool" where
  "resolved get_node_id_fn get_parent_nodes placed n =
     list_all (\<lambda>p. get_node_id_fn p \<in> set placed) (get_parent_nodes n)"

function layering ::
  "('a \<Rightarrow> string) \<Rightarrow> ('a \<Rightarrow> 'a list) \<Rightarrow> 'a list \<Rightarrow> string list \<Rightarrow> 'a list list
     \<Rightarrow> 'a list list \<times> 'a list" where
  "layering get_node_id_fn get_parent_nodes remaining placed layers =
     (let layer = filter (resolved get_node_id_fn get_parent_nodes placed) remaining in
      if layer = [] then (layers, remaining)
      else layering get_node_id_fn get_parent_nodes
             (filter (\<lambda>n. \<not> resolved get_node_id_fn get_parent_nodes placed n) remaining)
             (placed @ map get_node_id_fn layer) (layers @ [layer]))"
  by pat_completeness auto
termination
proof (relation "measure (\<lambda>(f, g, remaining, placed, layers). length remaining)")
  show "wf (measure (\<lambda>(f, g, remaining, placed, layers). length remaining))"
    by simp
next
  fix get_node_id_fn :: "'a \<Rightarrow> string" and get_parent_nodes :: "'a \<Rightarrow> 'a list"
    and remaining :: "'a list" and placed :: "string list" and layers :: "'a list list"
  fix x :: "'a list"
  assume x: "x = filter (resolved get_node_id_fn get_parent_nodes placed) remaining"
    and ne: "x \<noteq> []"
  have "length x + length (filter (\<lambda>n. \<not> resolved get_node_id_fn get_parent_nodes placed n) remaining)
        = length remaining"
    unfolding x by (rule sum_length_filter_compl)
  moreover have "0 < length x"
    using ne by (cases x) simp_all
  ultimately have
    "length (filter (\<lambda>n. \<not> resolved get_node_id_fn get_parent_nodes placed n) remaining)
       < length remaining"
    by arith
  then show
    "((get_node_id_fn, get_parent_nodes,
       filter (\<lambda>n. \<not> resolved get_node_id_fn get_parent_nodes placed n) remaining,
       placed @ map get_node_id_fn x, layers @ [x]),
      (get_node_id_fn, get_parent_nodes, remaining, placed, layers))
     \<in> measure (\<lambda>(f, g, remaining, placed, layers). length remaining)"
    by simp
qed

definition topsorted_layers ::
  "'a list \<Rightarrow> ('a \<Rightarrow> string) \<Rightarrow> ('a \<Rightarrow> 'a list) \<Rightarrow> ('a \<Rightarrow> 'a list) \<Rightarrow> error + 'a list list" where
  "topsorted_layers nodes get_node_id_fn get_parent_nodes get_child_nodes =
     (case layering get_node_id_fn get_parent_nodes nodes [] [] of
        (layers, residual) \<Rightarrow>
          if residual \<noteq> [] then Inl (RuntimeError (CycleDetected (map get_node_id_fn residual)))
          else Inr layers)"

text \<open>
  Modelled from the spec: \<open>zenml.orchestrators.dag_runner.reverse_dag\<close> is not among the
  sources. The spec's adjacency structure from a node to its children: every node of the
  graph, with the nodes that name it as a parent.
\<close>

definition reverse_dag :: "(string, string list) dict \<Rightarrow> (string, string list) dict" where
  "reverse_dag dag =
     map (\<lambda>node. (node, map fst (filter (\<lambda>(child, upstream). node \<in> set upstream) dag)))
       (map fst dag)"

text \<open>
  \<open>d[k]\<close> where the key is one of the dictionary's own (the two closures below are called
  on nodes of \<open>dag\<close> only).
\<close>

definition getitem :: "('k, 'v) dict \<Rightarrow> 'k \<Rightarrow> 'v" where
  "getitem d k = the (map_of d k)"

section \<open>The compiler: ordering the invocations\<close>

definition verify_upstream_steps :: "StepInvocation \<Rightarrow> Pipeline \<Rightarrow> error + unit" where
  "verify_upstream_steps invocation pipeline =
     (let available_steps = set (map fst (invocations pipeline));
          invalid_upstream_steps = StepInvocation.upstream_steps invocation - available_steps
      in if invalid_upstream_steps \<noteq> {}
         then Inl (RuntimeError (InvalidUpstreamSteps invalid_upstream_steps available_steps))
         else Inr ())"

text \<open>The loop that fills \<open>dag\<close>, over the items of \<open>pipeline.invocations\<close>.\<close>

fun build_dag ::
  "externals \<Rightarrow> Pipeline \<Rightarrow> (string, StepInvocation) dict \<Rightarrow> (string, string list) dict
     \<Rightarrow> error + (string, string list) dict" where
  "build_dag ext pipeline [] dag = Inr dag"
| "build_dag ext pipeline ((name_in_pipeline, invocation) # rest) dag =
     (case verify_upstream_steps invocation pipeline of
        Inl e \<Rightarrow> Inl e
      | Inr _ \<Rightarrow>
          build_dag ext pipeline rest
            (AList.update name_in_pipeline
               (set_iteration ext (StepInvocation.upstream_steps invocation)) dag))"

text \<open>
  \<open>pipeline.invocations[name_in_pipeline]\<close> in the final comprehension raises \<open>KeyError\<close> for
  a name that is not a key.
\<close>

fun lookup_invocations ::
  "Pipeline \<Rightarrow> string list \<Rightarrow> error + (string \<times> StepInvocation) list" where
  "lookup_invocations pipeline [] = Inr []"
| "lookup_invocations pipeline (name_in_pipeline # rest) =
     (case map_of (invocations pipeline) name_in_pipeline of
        None \<Rightarrow> Inl (KeyError (Message name_in_pipeline))
      | Some invocation \<Rightarrow>
          (case lookup_invocations pipeline rest of
             Inl e \<Rightarrow> Inl e
           | Inr sorted_invocations \<Rightarrow> Inr ((name_in_pipeline, invocation) # sorted_invocations)))"

definition get_sorted_invocations ::
  "externals \<Rightarrow> Pipeline \<Rightarrow> error + (string \<times> StepInvocation) list" where
  "get_sorted_invocations ext pipeline =
     (case build_dag ext pipeline (invocations pipeline) [] of
        Inl e \<Rightarrow> Inl e
      | Inr dag \<Rightarrow>
          (let reversed_dag = reverse_dag dag in
           case topsorted_layers (map fst dag) (\<lambda>node. node) (\<lambda>node. getitem dag node)
                  (\<lambda>node. getitem reversed_dag node) of
             Inl e \<Rightarrow> Inl e
           | Inr layers \<Rightarrow>
               (let sorted_step_names = concat layers
                in lookup_invocations pipeline sorted_step_names)))"

section \<open>Configuration merging\<close>

text \<open>\<open>d.update(u)\<close>: the items of \<open>u\<close>, in order, stored into \<open>d\<close>.\<close>

definition dict_update :: "('k, 'v) dict \<Rightarrow> ('k, 'v) dict \<Rightarrow> ('k, 'v) dict" where
  "dict_update d u = fold (\<lambda>(k, v). AList.update k v) u d"

text \<open>
  Modelled from the spec: \<open>pydantic_utils.update_model\<close> is not among the sources. The spec's
  combine merge of two settings objects: the fields are merged, the right-hand operand wins
  field by field and the fields it does not set keep the left-hand operand's value.
\<close>

definition update_model :: "BaseSettings \<Rightarrow> BaseSettings \<Rightarrow> BaseSettings" where
  "update_model original upd =
     original\<lparr>field_values := dict_update (field_values original) (field_values upd)\<rparr>"

definition combine_settings ::
  "(string, BaseSettings) dict \<Rightarrow> (string, BaseSettings) dict \<Rightarrow> (string, BaseSettings) dict" where
  "combine_settings existing incoming =
     fold (\<lambda>(key, instance) d.
             case map_of d key of
               None \<Rightarrow> AList.update key instance d
             | Some present \<Rightarrow> AList.update key (update_model present instance) d)
       incoming existing"

text \<open>
  Modelled from the spec: \<open>Pipeline.configure\<close>, \<open>BaseStep.configure\<close> and
  \<open>BaseStep._apply_configuration\<close> are not among the sources. The spec's two merge
  operators: with \<open>merge = False\<close> (replace) an incoming value completely replaces the key,
  with \<open>merge = True\<close> (combine) settings and extras are merged, the incoming operand winning;
  an argument that is not passed leaves its key as it is.
\<close>

definition apply_update ::
  "bool \<Rightarrow> ConfigurationUpdate \<Rightarrow> 'a Configuration_scheme \<Rightarrow> 'a Configuration_scheme" where
  "apply_update merge upd c =
     c\<lparr>Configuration.enable_cache :=
         (case ConfigurationUpdate.enable_cache upd of
            None \<Rightarrow> Configuration.enable_cache c | Some v \<Rightarrow> Some v),
       Configuration.enable_artifact_metadata :=
         (case ConfigurationUpdate.enable_artifact_metadata upd of
            None \<Rightarrow> Configuration.enable_artifact_metadata c | Some v \<Rightarrow> Some v),
       Configuration.enable_artifact_visualization :=
         (case ConfigurationUpdate.enable_artifact_visualization upd of
            None \<Rightarrow> Configuration.enable_artifact_visualization c | Some v \<Rightarrow> Some v),
       Configuration.settings :=
         (case ConfigurationUpdate.settings upd of
            None \<Rightarrow> Configuration.settings c
          | Some incoming \<Rightarrow>
              if merge then combine_settings (Configuration.settings c) incoming else incoming),
       Configuration.extra :=
         (case ConfigurationUpdate.extra upd of
            None \<Rightarrow> Configuration.extra c
          | Some incoming \<Rightarrow>
              if merge then dict_update (Configuration.extra c) incoming else incoming),
       Configuration.failure_hook_source :=
         (case ConfigurationUpdate.failure_hook_source upd of
            None \<Rightarrow> Configuration.failure_hook_source c | Some v \<Rightarrow> Some v),
       Configuration.success_hook_source :=
         (case ConfigurationUpdate.success_hook_source upd of
            None \<Rightarrow> Configuration.success_hook_source c | Some v \<Rightarrow> Some v)\<rparr>"

definition pipeline_configure :: "Pipeline \<Rightarrow> ConfigurationUpdate \<Rightarrow> bool \<Rightarrow> Pipeline" where
  "pipeline_configure pipeline upd merge =
     pipeline\<lparr>Pipeline.configuration := apply_update merge upd (Pipeline.configuration pipeline)\<rparr>"

definition step_apply_configuration :: "BaseStep \<Rightarrow> ConfigurationUpdate \<Rightarrow> bool \<Rightarrow> BaseStep" where
  "step_apply_configuration s upd merge =
     s\<lparr>BaseStep.configuration :=
         (apply_update merge upd (BaseStep.configuration s))
           \<lparr>StepConfiguration.step_operator :=
              (case ConfigurationUpdate.step_operator upd of
                 None \<Rightarrow> StepConfiguration.step_operator (BaseStep.configuration s)
               | Some v \<Rightarrow> Some v),
            StepConfiguration.experiment_tracker :=
              (case ConfigurationUpdate.experiment_tracker upd of
                 None \<Rightarrow> StepConfiguration.experiment_tracker (BaseStep.configuration s)
               | Some v \<Rightarrow> Some v)\<rparr>\<rparr>"

text \<open>A call of \<open>configure\<close> that passes no argument.\<close>

definition no_update :: ConfigurationUpdate where
  "no_update =
     \<lparr>ConfigurationUpdate.enable_cache = None, enable_artifact_metadata = None,
      enable_artifact_visualization = None, step_operator = None, experiment_tracker = None,
      settings = None, extra = None, failure_hook_source = None, success_hook_source = None\<rparr>"

text \<open>
  \<open>invocation.step.m(...)\<close>: the method \<open>m\<close> on the step object that the reference \<open>i\<close>
  names in the pipeline's object graph.
\<close>

definition on_step :: "nat \<Rightarrow> (BaseStep \<Rightarrow> BaseStep) \<Rightarrow> Pipeline \<Rightarrow> Pipeline" where
  "on_step i m pipeline =
     pipeline\<lparr>step_objects := (step_objects pipeline)(i := m (step_objects pipeline i))\<rparr>"

text \<open>
  Modelled from the spec: \<open>StepInvocation.finalize\<close> is not among the sources. The spec's
  deployment maps a step name to the fully merged step configuration: the configuration of
  the invocation's step.
\<close>

definition finalize :: "BaseStep \<Rightarrow> StepConfiguration" where
  "finalize s = BaseStep.configuration s"

section \<open>The compiler: settings\<close>

text \<open>
  The loop of \<open>_filter_and_validate_settings\<close> over \<open>settings.items()\<close>, with the dictionary
  \<open>validated_settings\<close> and the records that \<open>logger.info\<close> has written so far. Only a
  \<open>KeyError\<close> of the resolver is caught.
\<close>

fun filter_and_validate_loop ::
  "externals \<Rightarrow> ConfigurationLevel \<Rightarrow> Stack \<Rightarrow> (string, BaseSettings) dict
     \<Rightarrow> (string, BaseSettings) dict \<Rightarrow> log_record list
     \<Rightarrow> log_record list \<times> (error + (string, BaseSettings) dict)" where
  "filter_and_validate_loop ext configuration_level stack [] validated_settings logged =
     (logged, Inr validated_settings)"
| "filter_and_validate_loop ext configuration_level stack ((key, settings_instance) # rest)
     validated_settings logged =
     (case resolve ext stack key settings_instance of
        Inl (KeyError m) \<Rightarrow>
          filter_and_validate_loop ext configuration_level stack rest validated_settings
            (logged @ [NotIncludingSettings key])
      | Inl e \<Rightarrow> (logged, Inl e)
      | Inr resolved_instance \<Rightarrow>
          if configuration_level \<notin> LEVEL resolved_instance
          then (logged, Inl (TypeError (UnsupportedLevel (py_class resolved_instance)
                                          configuration_level)))
          else filter_and_validate_loop ext configuration_level stack rest
                 (AList.update key resolved_instance validated_settings) logged)"

definition filter_and_validate_settings ::
  "externals \<Rightarrow> (string, BaseSettings) dict \<Rightarrow> ConfigurationLevel \<Rightarrow> Stack
     \<Rightarrow> log_record list \<times> (error + (string, BaseSettings) dict)" where
  "filter_and_validate_settings ext settings_dict configuration_level stack =
     filter_and_validate_loop ext configuration_level stack settings_dict [] []"

text \<open>
  Modelled from the spec: \<open>settings_utils.get_stack_component_setting_key\<close> is not among the
  sources. The spec's key of a stack component's settings:
  \<open>"<component_type>.<component_flavor>"\<close>.
\<close>

definition get_stack_component_setting_key :: "StackComponent \<Rightarrow> string" where
  "get_stack_component_setting_key component = component_type component @ ''.'' @ flavor component"

text \<open>
  \<open>config.dict(include=field_names, exclude_unset=True, exclude_defaults=True)\<close>, and the
  settings object that \<open>parse_obj\<close> builds from it.
\<close>

definition config_dict :: "(string, ConfigAttribute) dict \<Rightarrow> string set \<Rightarrow> (string, string) dict" where
  "config_dict attributes field_names =
     map (\<lambda>(k, a). (k, attr_value a))
       (filter (\<lambda>(k, a). k \<in> field_names \<and> is_set a \<and> attr_value a \<noteq> default_value a)
          attributes)"

definition get_default_settings :: "StackComponent \<Rightarrow> error + BaseSettings" where
  "get_default_settings stack_component =
     (case settings_class stack_component of
        None \<Rightarrow> Inl (AssertionError (Message []))
      | Some cls \<Rightarrow>
          (let field_names = set (class_fields cls);
               default_settings =
                 \<lparr>py_class = class_name cls, LEVEL = class_LEVEL cls,
                  field_values = config_dict (StackComponent.config stack_component) field_names\<rparr>
           in Inr default_settings))"

text \<open>The loop of \<open>_apply_stack_default_settings\<close> over \<open>stack.components.values()\<close>.\<close>

fun stack_default_settings_loop ::
  "StackComponent list \<Rightarrow> (string, BaseSettings) dict \<Rightarrow> error + (string, BaseSettings) dict" where
  "stack_default_settings_loop [] pipeline_settings = Inr pipeline_settings"
| "stack_default_settings_loop (component # rest) pipeline_settings =
     (if settings_class component = None
      then stack_default_settings_loop rest pipeline_settings
      else
        (let settings_key = get_stack_component_setting_key component in
         case get_default_settings component of
           Inl e \<Rightarrow> Inl e
         | Inr default_settings \<Rightarrow>
             (case map_of pipeline_settings settings_key of
                Some present \<Rightarrow>
                  (let combined_settings = update_model default_settings present
                   in stack_default_settings_loop rest
                        (AList.update settings_key combined_settings pipeline_settings))
              | None \<Rightarrow>
                  stack_default_settings_loop rest
                    (AList.update settings_key default_settings pipeline_settings))))"

definition apply_stack_default_settings :: "Pipeline \<Rightarrow> Stack \<Rightarrow> Pipeline \<times> (error + unit)" where
  "apply_stack_default_settings pipeline stack =
     (case stack_default_settings_loop (map snd (components stack))
             (Configuration.settings (Pipeline.configuration pipeline)) of
        Inl e \<Rightarrow> (pipeline, Inl e)
      | Inr pipeline_settings \<Rightarrow>
          (pipeline_configure pipeline
             (no_update\<lparr>ConfigurationUpdate.settings := Some pipeline_settings\<rparr>) False,
           Inr ()))"

section \<open>The compiler: the run name\<close>

text \<open>
  \<open>string.Formatter().parse\<close> of the Python standard library, as the scanner of CPython
  reads a format string: literal text with the escapes \<open>{{\<close> and \<open>}}\<close>, and replacement
  fields \<open>{field_name!conversion:format_spec}\<close>, whose format spec may nest braces. The
  result keeps the literal text and the field name of each item (the code reads \<open>v[1]\<close>
  only); every malformed string raises \<open>ValueError\<close>.
\<close>

datatype parse_state =
    Literal string
  | FieldName string string
  | Index string string
  | Conversion string string
  | AfterConversion string string
  | FormatSpec string string nat

definition yield :: "'a \<Rightarrow> error + 'a list \<Rightarrow> error + 'a list" where
  "yield x r = (case r of Inl e \<Rightarrow> Inl e | Inr xs \<Rightarrow> Inr (x # xs))"

fun formatter_parser :: "parse_state \<Rightarrow> string \<Rightarrow> error + (string \<times> string option) list" where
  "formatter_parser (Literal lit) [] = Inr (if lit = [] then [] else [(lit, None)])"
| "formatter_parser (Literal lit) (c # cs) =
     (if c = CHR ''{'' then
        (case cs of
           [] \<Rightarrow> Inl (ValueError (FormatString ''Single '{' encountered in format string''))
         | d # ds \<Rightarrow>
             if d = CHR ''{'' then yield (lit @ [c], None) (formatter_parser (Literal []) ds)
             else formatter_parser (FieldName lit []) cs)
      else if c = CHR ''}'' then
        (case cs of
           [] \<Rightarrow> Inl (ValueError (FormatString ''Single '}' encountered in format string''))
         | d # ds \<Rightarrow>
             if d = CHR ''}'' then yield (lit @ [c], None) (formatter_parser (Literal []) ds)
             else Inl (ValueError (FormatString ''Single '}' encountered in format string'')))
      else formatter_parser (Literal (lit @ [c])) cs)"
| "formatter_parser (FieldName lit field_name) [] =
     Inl (ValueError (FormatString ''expected '}' before end of string''))"
| "formatter_parser (FieldName lit field_name) (c # cs) =
     (if c = CHR ''{'' then Inl (ValueError (FormatString ''unexpected '{' in field name''))
      else if c = CHR ''['' then formatter_parser (Index lit (field_name @ [c])) cs
      else if c = CHR ''}'' then
        yield (lit, Some field_name) (formatter_parser (Literal []) cs)
      else if c = CHR '':'' then formatter_parser (FormatSpec lit field_name 1) cs
      else if c = CHR ''!'' then formatter_parser (Conversion lit field_name) cs
      else formatter_parser (FieldName lit (field_name @ [c])) cs)"
| "formatter_parser (Index lit field_name) [] =
     Inl (ValueError (FormatString ''expected '}' before end of string''))"
| "formatter_parser (Index lit field_name) (c # cs) =
     (if c = CHR '']'' then formatter_parser (FieldName lit (field_name @ [c])) cs
      else formatter_parser (Index lit (field_name @ [c])) cs)"
| "formatter_parser (Conversion lit field_name) [] =
     Inl (ValueError (FormatString ''end of string while looking for conversion specifier''))"
| "formatter_parser (Conversion lit field_name) (c # cs) =
     formatter_parser (AfterConversion lit field_name) cs"
| "formatter_parser (AfterConversion lit field_name) [] =
     Inl (ValueError (FormatString ''unmatched '{' in format spec''))"
| "formatter_parser (AfterConversion lit field_name) (c # cs) =
     (if c = CHR ''}'' then
        yield (lit, Some field_name) (formatter_parser (Literal []) cs)
      else if c \<noteq> CHR '':'' then
        Inl (ValueError (FormatString ''expected ':' after conversion specifier''))
      else formatter_parser (FormatSpec lit field_name 1) cs)"
| "formatter_parser (FormatSpec lit field_name n) [] =
     Inl (ValueError (FormatString ''unmatched '{' in format spec''))"
| "formatter_parser (FormatSpec lit field_name n) (c # cs) =
     (if c = CHR ''{'' then formatter_parser (FormatSpec lit field_name (Suc n)) cs
      else if c = CHR ''}'' then
        (if n = 1 then yield (lit, Some field_name) (formatter_parser (Literal []) cs)
         else formatter_parser (FormatSpec lit field_name (n - 1)) cs)
      else formatter_parser (FormatSpec lit field_name n) cs)"

definition parse :: "string \<Rightarrow> error + (string \<times> string option) list" where
  "parse format_string = formatter_parser (Literal []) format_string"

text \<open>\<open>{v[1] for v in items if v[1]}\<close>: the field names that are neither \<open>None\<close> nor empty.\<close>

definition field_names_of :: "(string \<times> string option) list \<Rightarrow> string set" where
  "field_names_of items =
     set (concat (map (\<lambda>v. case snd v of None \<Rightarrow> [] | Some n \<Rightarrow> if n = [] then [] else [n])
                    items))"

definition verify_run_name :: "string \<Rightarrow> error + unit" where
  "verify_run_name rn =
     (let valid_placeholder_names = {''date'', ''time''} in
      case parse rn of
        Inl e \<Rightarrow> Inl e
      | Inr items \<Rightarrow>
          (let placeholders = field_names_of items in
           if \<not> placeholders \<subseteq> valid_placeholder_names
           then Inl (ValueError (InvalidRunName rn valid_placeholder_names))
           else Inr ()))"

definition get_default_run_name :: "string \<Rightarrow> string" where
  "get_default_run_name pipeline_name = pipeline_name @ ''-{date}-{time}''"

section \<open>The compiler: steps and pipeline\<close>

text \<open>
  The methods below are called on the working copy of the pipeline and mutate it: each takes
  the object and returns it as the call leaves it, with what the call returns or raises.
\<close>

text \<open>The loop of \<open>_apply_run_configuration\<close> over \<open>config.steps.items()\<close>.\<close>

fun apply_step_configurations ::
  "externals \<Rightarrow> (string, ConfigurationUpdate) dict \<Rightarrow> Pipeline \<Rightarrow> Pipeline \<times> (error + unit)" where
  "apply_step_configurations ext [] pipeline = (pipeline, Inr ())"
| "apply_step_configurations ext ((name_of_step, step_config) # rest) pipeline =
     (case map_of (invocations pipeline) name_of_step of
        None \<Rightarrow> (pipeline, Inl (KeyError (NoStepWithName name_of_step)))
      | Some invocation \<Rightarrow>
          apply_step_configurations ext rest
            (on_step (step invocation)
               (\<lambda>s. step_apply_configuration s step_config (merge_default ext)) pipeline))"

text \<open>
  \<open>for invocation in pipeline.invocations.values(): invocation.step.configure(...)\<close>
\<close>

definition configure_all_steps :: "externals \<Rightarrow> ConfigurationUpdate \<Rightarrow> Pipeline \<Rightarrow> Pipeline" where
  "configure_all_steps ext upd pipeline =
     fold (\<lambda>invocation.
             on_step (step invocation) (\<lambda>s. step_apply_configuration s upd (merge_default ext)))
       (map snd (invocations pipeline)) pipeline"

definition apply_run_configuration ::
  "externals \<Rightarrow> Pipeline \<Rightarrow> PipelineRunConfiguration \<Rightarrow> Pipeline \<times> (error + unit)" where
  "apply_run_configuration ext pipeline run_config =
     (let configured =
            pipeline_configure pipeline
              (no_update
                 \<lparr>ConfigurationUpdate.enable_cache := PipelineRunConfiguration.enable_cache run_config,
                  ConfigurationUpdate.enable_artifact_metadata :=
                    PipelineRunConfiguration.enable_artifact_metadata run_config,
                  ConfigurationUpdate.enable_artifact_visualization :=
                    PipelineRunConfiguration.enable_artifact_visualization run_config,
                  ConfigurationUpdate.settings := Some (PipelineRunConfiguration.settings run_config),
                  ConfigurationUpdate.extra := Some (PipelineRunConfiguration.extra run_config)\<rparr>)
              (merge_default ext)
      in case apply_step_configurations ext (PipelineRunConfiguration.steps run_config) configured of
           (p1, Inl e) \<Rightarrow> (p1, Inl e)
         | (p1, Inr _) \<Rightarrow>
             (let p2 =
                    (if PipelineRunConfiguration.enable_cache run_config \<noteq> None
                     then configure_all_steps ext
                            (no_update\<lparr>ConfigurationUpdate.enable_cache :=
                                          PipelineRunConfiguration.enable_cache run_config\<rparr>) p1
                     else p1);
                  p3 =
                    (if PipelineRunConfiguration.enable_artifact_metadata run_config \<noteq> None
                     then configure_all_steps ext
                            (no_update\<lparr>ConfigurationUpdate.enable_artifact_metadata :=
                                          PipelineRunConfiguration.enable_artifact_metadata run_config\<rparr>) p2
                     else p2);
                  p4 =
                    (if PipelineRunConfiguration.enable_artifact_visualization run_config \<noteq> None
                     then configure_all_steps ext
                            (no_update\<lparr>ConfigurationUpdate.enable_artifact_visualization :=
                                          PipelineRunConfiguration.enable_artifact_visualization run_config\<rparr>) p3
                     else p3)
              in (p4, Inr ())))"

text \<open>
  \<open>objs\<close> is the pipeline in whose object graph \<open>invocation.step\<close> is looked up;
  \<open>step.resolve()\<close> is the \<open>source\<close> of the step object.
\<close>

definition get_step_spec :: "Pipeline \<Rightarrow> StepInvocation \<Rightarrow> StepSpec" where
  "get_step_spec objs invocation =
     (let input_specs =
            map (\<lambda>(key, artifact).
                   (key, \<lparr>step_name = invocation_id artifact,
                          output_name = StepArtifact.output_name artifact\<rparr>))
              (input_artifacts invocation)
      in \<lparr>StepSpec.source = BaseStep.source (step_objects objs (step invocation)),
          upstream_steps = sorted_list_of_set (StepInvocation.upstream_steps invocation),
          inputs = input_specs,
          pipeline_parameter_name = inv_id invocation\<rparr>)"

text \<open>
  \<open>copy.deepcopy(invocation)\<close> gives the invocation a step object of its own, \<open>s\<close>: the two
  calls of \<open>configure\<close> and \<open>finalize\<close> change that copy only.
\<close>

definition compile_step_invocation ::
  "externals \<Rightarrow> Pipeline \<Rightarrow> StepInvocation \<Rightarrow> (string, BaseSettings) dict \<Rightarrow> (string, string) dict
     \<Rightarrow> Stack \<Rightarrow> Source option \<Rightarrow> Source option \<Rightarrow> log_record list \<times> (error + Step)" where
  "compile_step_invocation ext objs invocation pipeline_settings pipeline_extra stack
     pipeline_failure_hook_source pipeline_success_hook_source =
     (let s = step_objects objs (step invocation);
          step_spec = get_step_spec objs invocation
      in case filter_and_validate_settings ext
                (Configuration.settings (BaseStep.configuration s)) STEP stack of
           (logged, Inl e) \<Rightarrow> (logged, Inl e)
         | (logged, Inr step_settings) \<Rightarrow>
             (let step_extra = Configuration.extra (BaseStep.configuration s);
                  step_on_failure_hook_source =
                    Configuration.failure_hook_source (BaseStep.configuration s);
                  step_on_success_hook_source =
                    Configuration.success_hook_source (BaseStep.configuration s);
                  s1 = step_apply_configuration s
                         (no_update\<lparr>ConfigurationUpdate.settings := Some pipeline_settings,
                                    ConfigurationUpdate.extra := Some pipeline_extra,
                                    ConfigurationUpdate.failure_hook_source :=
                                      pipeline_failure_hook_source,
                                    ConfigurationUpdate.success_hook_source :=
                                      pipeline_success_hook_source\<rparr>) False;
                  s2 = step_apply_configuration s1
                         (no_update\<lparr>ConfigurationUpdate.settings := Some step_settings,
                                    ConfigurationUpdate.extra := Some step_extra,
                                    ConfigurationUpdate.failure_hook_source :=
                                      step_on_failure_hook_source,
                                    ConfigurationUpdate.success_hook_source :=
                                      step_on_success_hook_source\<rparr>) True;
                  complete_step_configuration = finalize s2
              in (logged, Inr \<lparr>spec = step_spec, config = complete_step_configuration\<rparr>)))"

text \<open>The dictionary comprehension of \<open>compile\<close> over the sorted invocations.\<close>

fun compile_steps ::
  "externals \<Rightarrow> Pipeline \<Rightarrow> (string, BaseSettings) dict \<Rightarrow> Stack
     \<Rightarrow> (string \<times> StepInvocation) list \<Rightarrow> (string, Step) dict \<Rightarrow> log_record list
     \<Rightarrow> log_record list \<times> (error + (string, Step) dict)" where
  "compile_steps ext pipeline settings_to_passdown stack [] compiled logged =
     (logged, Inr compiled)"
| "compile_steps ext pipeline settings_to_passdown stack ((name_in_pipeline, invocation) # rest)
     compiled logged =
     (case compile_step_invocation ext pipeline invocation settings_to_passdown
             (Configuration.extra (Pipeline.configuration pipeline)) stack
             (Configuration.failure_hook_source (Pipeline.configuration pipeline))
             (Configuration.success_hook_source (Pipeline.configuration pipeline)) of
        (l, Inl e) \<Rightarrow> (logged @ l, Inl e)
      | (l, Inr compiled_step) \<Rightarrow>
          compile_steps ext pipeline settings_to_passdown stack rest
            (AList.update name_in_pipeline compiled_step compiled) (logged @ l))"

text \<open>Python's truth value of an optional string: \<open>None\<close> and \<open>""\<close> are false.\<close>

definition truthy :: "string option \<Rightarrow> bool" where
  "truthy x = (case x of None \<Rightarrow> False | Some v \<Rightarrow> v \<noteq> [])"

text \<open>\<open>x and x not in available\<close>, with the value of \<open>x\<close> when it holds.\<close>

definition missing_from :: "string option \<Rightarrow> string set \<Rightarrow> string option" where
  "missing_from x available =
     (case x of
        None \<Rightarrow> None
      | Some v \<Rightarrow> if v \<noteq> [] \<and> v \<notin> available then Some v else None)"

fun ensure_loop ::
  "Stack \<Rightarrow> string set \<Rightarrow> string set \<Rightarrow> (string \<times> Step) list \<Rightarrow> error + unit" where
  "ensure_loop stack available_step_operators available_experiment_trackers [] = Inr ()"
| "ensure_loop stack available_step_operators available_experiment_trackers
     ((name_in_pipeline, compiled_step) # rest) =
     (case missing_from (StepConfiguration.step_operator (Step.config compiled_step))
             available_step_operators of
        Some operator_name \<Rightarrow>
          Inl (StackValidationError
                 (MissingStepOperator name_in_pipeline operator_name (Stack.name stack)
                    available_step_operators))
      | None \<Rightarrow>
          (case missing_from (StepConfiguration.experiment_tracker (Step.config compiled_step))
                  available_experiment_trackers of
             Some tracker_name \<Rightarrow>
               Inl (StackValidationError
                      (MissingExperimentTracker name_in_pipeline tracker_name (Stack.name stack)
                         available_experiment_trackers))
           | None \<Rightarrow>
               ensure_loop stack available_step_operators available_experiment_trackers rest))"

definition ensure_required_stack_components_exist ::
  "Stack \<Rightarrow> (string, Step) dict \<Rightarrow> error + unit" where
  "ensure_required_stack_components_exist stack compiled =
     (let available_step_operators =
            (case Stack.step_operator stack of
               Some c \<Rightarrow> {StackComponent.name c} | None \<Rightarrow> {});
          available_experiment_trackers =
            (case Stack.experiment_tracker stack of
               Some c \<Rightarrow> {StackComponent.name c} | None \<Rightarrow> {})
      in ensure_loop stack available_step_operators available_experiment_trackers compiled)"

definition compute_pipeline_spec :: "Pipeline \<Rightarrow> StepSpec list \<Rightarrow> PipelineSpec" where
  "compute_pipeline_spec pipeline step_specs =
     (if is_base_pipeline pipeline
      then \<lparr>version = Some ''0.3'', source = None, parameters = None, steps = step_specs\<rparr>
      else \<lparr>version = None, source = Some (Pipeline.source pipeline),
            parameters = Some (Pipeline.parameters pipeline), steps = step_specs\<rparr>)"

section \<open>The compiler: the two entry points\<close>

text \<open>
  The caller's pipeline is an object of the heap. \<open>copy.deepcopy\<close> allocates a copy of the
  object graph at a fresh address, which the local variable \<open>pipeline\<close> then names; \<open>put\<close>
  stores the working copy as the calls on it leave it.
\<close>

definition deepcopy :: "nat \<Rightarrow> heap \<Rightarrow> nat \<times> heap" where
  "deepcopy a h =
     (next_free h, h\<lparr>store := (store h)(next_free h := store h a), next_free := Suc (next_free h)\<rparr>)"

definition put :: "nat \<Rightarrow> Pipeline \<Rightarrow> heap \<Rightarrow> heap" where
  "put a p h = h\<lparr>store := (store h)(a := p)\<rparr>"

definition compile ::
  "externals \<Rightarrow> nat \<Rightarrow> Stack \<Rightarrow> PipelineRunConfiguration \<Rightarrow> heap
     \<Rightarrow> heap \<times> log_record list \<times> (error + PipelineDeploymentBaseModel \<times> PipelineSpec)" where
  "compile ext caller_pipeline stack run_configuration h0 =
     (case deepcopy caller_pipeline h0 of (pipeline, h) \<Rightarrow>
      case apply_run_configuration ext (store h pipeline) run_configuration of
        (p1, Inl e) \<Rightarrow> (put pipeline p1 h, [], Inl e)
      | (p1, Inr _) \<Rightarrow>
      case apply_stack_default_settings p1 stack of
        (p2, Inl e) \<Rightarrow> (put pipeline p2 h, [], Inl e)
      | (p2, Inr _) \<Rightarrow>
      case (case run_name run_configuration of
              None \<Rightarrow> Inr ()
            | Some rn \<Rightarrow> if rn \<noteq> [] then verify_run_name rn else Inr ()) of
        Inl e \<Rightarrow> (put pipeline p2 h, [], Inl e)
      | Inr _ \<Rightarrow>
      case filter_and_validate_settings ext
             (Configuration.settings (Pipeline.configuration p2)) PIPELINE stack of
        (logged, Inl e) \<Rightarrow> (put pipeline p2 h, logged, Inl e)
      | (logged, Inr pipeline_settings) \<Rightarrow>
      (let p3 = pipeline_configure p2
                  (no_update\<lparr>ConfigurationUpdate.settings := Some pipeline_settings\<rparr>) False;
           settings_to_passdown = filter (\<lambda>(key, s). STEP \<in> LEVEL s) pipeline_settings
       in case get_sorted_invocations ext p3 of
            Inl e \<Rightarrow> (put pipeline p3 h, logged, Inl e)
          | Inr sorted_invocations \<Rightarrow>
          case compile_steps ext p3 settings_to_passdown stack sorted_invocations [] logged of
            (logged, Inl e) \<Rightarrow> (put pipeline p3 h, logged, Inl e)
          | (logged, Inr compiled) \<Rightarrow>
          case ensure_required_stack_components_exist stack compiled of
            Inl e \<Rightarrow> (put pipeline p3 h, logged, Inl e)
          | Inr _ \<Rightarrow>
          (let run_name_template_value =
                 (if truthy (run_name run_configuration)
                  then (case run_name run_configuration of Some rn \<Rightarrow> rn | None \<Rightarrow> [])
                  else get_default_run_name (Pipeline.name p3));
               deployment =
                 \<lparr>run_name_template = run_name_template_value,
                  pipeline_configuration = Pipeline.configuration p3,
                  step_configurations = compiled,
                  client_environment = get_run_environment_dict ext\<rparr>;
               step_specs = map (\<lambda>(name_in_pipeline, compiled_step). spec compiled_step) compiled;
               pipeline_spec = compute_pipeline_spec p3 step_specs
           in (put pipeline p3 h, logged, Inr (deployment, pipeline_spec)))))"

definition compile_spec :: "externals \<Rightarrow> nat \<Rightarrow> heap \<Rightarrow> heap \<times> (error + PipelineSpec)" where
  "compile_spec ext caller_pipeline h0 =
     (case deepcopy caller_pipeline h0 of (pipeline, h) \<Rightarrow>
      case get_sorted_invocations ext (store h pipeline) of
        Inl e \<Rightarrow> (h, Inl e)
      | Inr sorted_invocations \<Rightarrow>
          (let step_specs =
                 map (\<lambda>(name_in_pipeline, invocation). get_step_spec (store h pipeline) invocation)
                   sorted_invocations;
               pipeline_spec = compute_pipeline_spec (store h pipeline) step_specs
           in (h, Inr pipeline_spec)))"

section \<open>The dependency graph of a pipeline\<close>

text \<open>
  The edges of the graph run from an upstream step to the invocation that names it.
  \<open>upstream_defined\<close>: every upstream reference is a key of \<open>pipeline.invocations\<close>.
  \<open>dag_of\<close> is the dictionary \<open>dag\<close> that \<open>_get_sorted_invocations\<close> builds when no
  invocation is refused.
\<close>

definition dependency_graph :: "Pipeline \<Rightarrow> (string \<times> string) set" where
  "dependency_graph p =
     (\<Union>(n, iv)\<in>set (invocations p). (\<lambda>u. (u, n)) ` StepInvocation.upstream_steps iv)"

definition upstream_defined :: "Pipeline \<Rightarrow> bool" where
  "upstream_defined p =
     list_all (\<lambda>(n, iv). StepInvocation.upstream_steps iv \<subseteq> set (map fst (invocations p)))
       (invocations p)"

definition dag_of :: "externals \<Rightarrow> (string, StepInvocation) dict \<Rightarrow> (string, string list) dict" where
  "dag_of ext items = map (\<lambda>(n, iv). (n, set_iteration ext (StepInvocation.upstream_steps iv))) items"

section \<open>The stages of compile\<close>

text \<open>
  The statement \<open>if run_configuration.run_name: self._verify_run_name(...)\<close> of
  \<open>compile\<close>, on its own.
\<close>

definition run_name_check :: "PipelineRunConfiguration \<Rightarrow> error + unit" where
  "run_name_check cfg =
     (case run_name cfg of None \<Rightarrow> Inr ()
      | Some rn \<Rightarrow> if rn \<noteq> [] then verify_run_name rn else Inr ())"

text \<open>Two environments that differ in the iteration order of sets and in the snapshot only.\<close>

definition same_collaborators :: "externals \<Rightarrow> externals \<Rightarrow> bool" where
  "same_collaborators ext ext' =
     (resolve ext = resolve ext' \<and> merge_default ext = merge_default ext')"


section \<open>A configuration without the settings of a key\<close>

text \<open>
  The pipeline, its step objects and the run configuration as they are when every settings
  entry with the key \<open>key\<close> is taken out of their settings dictionaries: what remains of
  the configuration when the entries of \<open>key\<close> are dropped.
\<close>

definition configuration_without :: "string \<Rightarrow> 'a Configuration_scheme \<Rightarrow> 'a Configuration_scheme" where
  "configuration_without key c =
     c\<lparr>Configuration.settings := AList.delete key (Configuration.settings c)\<rparr>"

definition step_without :: "string \<Rightarrow> BaseStep \<Rightarrow> BaseStep" where
  "step_without key s =
     s\<lparr>BaseStep.configuration := configuration_without key (BaseStep.configuration s)\<rparr>"

definition pipeline_without :: "string \<Rightarrow> Pipeline \<Rightarrow> Pipeline" where
  "pipeline_without key p =
     p\<lparr>Pipeline.configuration := configuration_without key (Pipeline.configuration p),
       step_objects := (\<lambda>i. step_without key (step_objects p i))\<rparr>"

definition update_without :: "string \<Rightarrow> ConfigurationUpdate \<Rightarrow> ConfigurationUpdate" where
  "update_without key upd =
     upd\<lparr>ConfigurationUpdate.settings :=
           map_option (AList.delete key) (ConfigurationUpdate.settings upd)\<rparr>"

definition run_configuration_without ::
  "string \<Rightarrow> PipelineRunConfiguration \<Rightarrow> PipelineRunConfiguration" where
  "run_configuration_without key cfg =
     cfg\<lparr>PipelineRunConfiguration.settings :=
           AList.delete key (PipelineRunConfiguration.settings cfg),
         PipelineRunConfiguration.steps :=
           map (\<lambda>(name_of_step, upd). (name_of_step, update_without key upd))
             (PipelineRunConfiguration.steps cfg)\<rparr>"
section \<open>Example values\<close>

definition example_configuration :: Configuration where
  "example_configuration =
     \<lparr>Configuration.enable_cache = None, enable_artifact_metadata = None,
      enable_artifact_visualization = None, settings = [], extra = [],
      failure_hook_source = None, success_hook_source = None\<rparr>"

definition example_step :: BaseStep where
  "example_step =
     \<lparr>BaseStep.source = ''steps.trainer'',
      configuration =
        \<lparr>Configuration.enable_cache = Some True, enable_artifact_metadata = None,
         enable_artifact_visualization = None, settings = [], extra = [],
         failure_hook_source = None, success_hook_source = None,
         StepConfiguration.step_operator = None, experiment_tracker = None\<rparr>\<rparr>"

definition example_pipeline :: Pipeline where
  "example_pipeline =
     \<lparr>Pipeline.name = ''p'', configuration = example_configuration,
      invocations =
        [(''B'', \<lparr>inv_id = ''B'', step = 1, upstream_steps = {''A''}, input_artifacts = []\<rparr>),
         (''A'', \<lparr>inv_id = ''A'', step = 0, upstream_steps = {}, input_artifacts = []\<rparr>)],
      is_base_pipeline = False, source = ''pipelines.p'', parameters = [],
      step_objects = (\<lambda>i. example_step)\<rparr>"

definition example_externals :: externals where
  "example_externals =
     \<lparr>set_iteration = sorted_list_of_set,
      resolve = (\<lambda>stack key instance.
                   if key = ''docker'' then Inr instance else Inl (KeyError (Message key))),
      merge_default = True, get_run_environment_dict = []\<rparr>"

definition example_stack :: Stack where
  "example_stack =
     \<lparr>Stack.name = ''local'',
      components =
        [(''orchestrator'',
          \<lparr>StackComponent.name = ''default'', component_type = ''orchestrator'',
           flavor = ''local'', settings_class = None, config = []\<rparr>)],
      step_operator = None, experiment_tracker = None\<rparr>"

definition example_run_configuration :: PipelineRunConfiguration where
  "example_run_configuration =
     \<lparr>run_name = None, enable_cache = Some False, enable_artifact_metadata = None,
      enable_artifact_visualization = None, steps = [], settings = [], extra = []\<rparr>"

definition example_heap :: heap where
  "example_heap = \<lparr>store = (\<lambda>a. example_pipeline), next_free = 1\<rparr>"

definition cyclic_pipeline :: Pipeline where
  "cyclic_pipeline =
     example_pipeline\<lparr>invocations :=
       [(''A'', \<lparr>inv_id = ''A'', step = 0, upstream_steps = {''B''}, input_artifacts = []\<rparr>),
        (''B'', \<lparr>inv_id = ''B'', step = 1, upstream_steps = {''A''}, input_artifacts = []\<rparr>)]\<rparr>"

definition dangling_pipeline :: Pipeline where
  "dangling_pipeline =
     example_pipeline\<lparr>invocations :=
       [(''A'', \<lparr>inv_id = ''A'', step = 0, upstream_steps = {}, input_artifacts = []\<rparr>),
        (''B'', \<lparr>inv_id = ''B'', step = 1, upstream_steps = {''A'', ''C''}, input_artifacts = []\<rparr>)]\<rparr>"

definition ghost_run_configuration :: PipelineRunConfiguration where
  "ghost_run_configuration = example_run_configuration\<lparr>PipelineRunConfiguration.steps := [(''ghost'', no_update)]\<rparr>"

definition cyclic_heap :: heap where
  "cyclic_heap = \<lparr>store = (\<lambda>a. cyclic_pipeline), next_free = 1\<rparr>"

definition dangling_heap :: heap where
  "dangling_heap = \<lparr>store = (\<lambda>a. dangling_pipeline), next_free = 1\<rparr>"

definition other_externals :: externals where
  "other_externals =
     example_externals\<lparr>set_iteration := (\<lambda>S. rev (sorted_list_of_set S)),
                         get_run_environment_dict := [(''python_version'', ''3.8'')]\<rparr>"


definition docker_settings :: BaseSettings where
  "docker_settings =
     \<lparr>py_class = ''DockerSettings'', LEVEL = {PIPELINE, STEP},
      field_values = [(''parent_image'', ''python:3.8'')]\<rparr>"

definition kubernetes_settings :: BaseSettings where
  "kubernetes_settings =
     \<lparr>py_class = ''KubernetesOrchestratorSettings'', LEVEL = {PIPELINE}, field_values = []\<rparr>"

definition settings_run_configuration :: PipelineRunConfiguration where
  "settings_run_configuration =
     example_run_configuration\<lparr>PipelineRunConfiguration.settings :=
       [(''orchestrator.kubernetes'', kubernetes_settings), (''docker'', docker_settings)]\<rparr>"

definition named_run_configuration :: PipelineRunConfiguration where
  "named_run_configuration = example_run_configuration\<lparr>run_name := Some ''run-{date}-{time}''\<rparr>"

definition invalid_run_configuration :: PipelineRunConfiguration where
  "invalid_run_configuration = example_run_configuration\<lparr>run_name := Some ''run-{user}''\<rparr>"

definition anonymous_field_run_configuration :: PipelineRunConfiguration where
  "anonymous_field_run_configuration = example_run_configuration\<lparr>run_name := Some ''run-{}''\<rparr>"

definition single_brace_run_configuration :: PipelineRunConfiguration where
  "single_brace_run_configuration = example_run_configuration\<lparr>run_name := Some ''run}''\<rparr>"
section \<open>Properties of the layering\<close>

declare layering.simps [simp del]

lemma update_fresh: "k \<notin> fst ` set d \<Longrightarrow> AList.update k v d = d @ [(k, v)]"
  by (induction d) auto

lemma layering_content:
  "layering f g rem placed layers = (L, R) \<Longrightarrow>
     \<exists>new. concat L = concat layers @ new \<and> set new \<union> set R = set rem \<and> (distinct rem \<longrightarrow> distinct (new @ R))"
proof (induction f g rem placed layers rule: layering.induct)
  case (1 f g rem placed layers)
  let ?layer = "filter (resolved f g placed) rem"
  show ?case
  proof (cases "?layer = []")
    case True
    with "1.prems" show ?thesis by (simp add: layering.simps)
  next
    case False
    let ?rest = "filter (\<lambda>n. \<not> resolved f g placed n) rem"
    from False "1.prems" have rec: "layering f g ?rest (placed @ map f ?layer) (layers @ [?layer]) = (L, R)"
      by (simp add: layering.simps[of f g rem] Let_def)
    from "1.IH"[OF refl False rec] obtain new where
      n: "concat L = concat (layers @ [?layer]) @ new" "set new \<union> set R = set ?rest"
         "distinct ?rest \<longrightarrow> distinct (new @ R)" by blast
    show ?thesis
    proof (intro exI[of _ "?layer @ new"] conjI impI)
      show "concat L = concat layers @ ?layer @ new" using n(1) by simp
      show "set (?layer @ new) \<union> set R = set rem" using n(2) by auto
      assume d: "distinct rem"
      then have "distinct (new @ R)" using n(3) by simp
      moreover have "set ?layer \<inter> (set new \<union> set R) = {}" using n(2) by auto
      ultimately show "distinct ((?layer @ new) @ R)" using d by auto
    qed
  qed
qed


definition after_parents :: "('a \<Rightarrow> string) \<Rightarrow> ('a \<Rightarrow> 'a list) \<Rightarrow> 'a list \<Rightarrow> bool" where
  "after_parents f g xs = (\<forall>i<length xs. \<forall>p\<in>set (g (xs ! i)). f p \<in> f ` set (take i xs))"

lemma resolved_iff: "resolved f g placed n = (\<forall>p\<in>set (g n). f p \<in> set placed)"
  by (simp add: resolved_def list_all_iff)

lemma after_parents_append:
  assumes "after_parents f g xs" and "\<forall>y\<in>set ys. \<forall>p\<in>set (g y). f p \<in> f ` set xs"
  shows "after_parents f g (xs @ ys)"
  unfolding after_parents_def
proof (intro allI impI ballI)
  fix i p
  assume i: "i < length (xs @ ys)" and p: "p \<in> set (g ((xs @ ys) ! i))"
  show "f p \<in> f ` set (take i (xs @ ys))"
  proof (cases "i < length xs")
    case True
    with assms(1) p show ?thesis by (auto simp: after_parents_def nth_append)
  next
    case False
    with i have "(xs @ ys) ! i \<in> set ys" by (simp add: nth_append)
    with assms(2) p have "f p \<in> f ` set xs" by blast
    with False show ?thesis by auto
  qed
qed

lemma layering_order:
  "layering f g rem placed layers = (L, R) \<Longrightarrow> set placed = f ` set (concat layers) \<Longrightarrow>
   after_parents f g (concat layers) \<Longrightarrow>
   after_parents f g (concat L) \<and> (\<forall>n\<in>set R. \<exists>p\<in>set (g n). f p \<notin> f ` set (concat L))"
proof (induction f g rem placed layers rule: layering.induct)
  case (1 f g rem placed layers)
  let ?layer = "filter (resolved f g placed) rem"
  show ?case
  proof (cases "?layer = []")
    case True
    with "1.prems"(1) have LR: "L = layers" "R = rem" by (simp_all add: layering.simps)
    from True have "\<forall>n\<in>set rem. \<not> resolved f g placed n" by (simp add: filter_empty_conv)
    with "1.prems"(2,3) LR show ?thesis by (auto simp: resolved_iff)
  next
    case False
    let ?rest = "filter (\<lambda>n. \<not> resolved f g placed n) rem"
    from False "1.prems"(1) have rec: "layering f g ?rest (placed @ map f ?layer) (layers @ [?layer]) = (L, R)"
      by (simp add: layering.simps[of f g rem] Let_def)
    have a: "set (placed @ map f ?layer) = f ` set (concat (layers @ [?layer]))"
      using "1.prems"(2) by auto
    have "\<forall>y\<in>set ?layer. \<forall>p\<in>set (g y). f p \<in> f ` set (concat layers)"
      using "1.prems"(2) by (auto simp: resolved_iff)
    with "1.prems"(3) have b: "after_parents f g (concat (layers @ [?layer]))"
      by (simp add: after_parents_append)
    from "1.IH"[OF refl False rec a b] show ?thesis .
  qed
qed

lemma layering_cong:
  "\<forall>n\<in>set rem. set (g1 n) = set (g2 n) \<Longrightarrow> layering f g1 rem placed layers = layering f g2 rem placed layers"
proof (induction f g1 rem placed layers rule: layering.induct)
  case (1 f g1 rem placed layers)
  have eq: "\<forall>n\<in>set rem. resolved f g1 placed n = resolved f g2 placed n"
    using "1.prems" by (simp add: resolved_iff)
  then have l: "filter (resolved f g1 placed) rem = filter (resolved f g2 placed) rem"
    by (auto intro: filter_cong)
  from eq have r: "filter (\<lambda>n. \<not> resolved f g1 placed n) rem = filter (\<lambda>n. \<not> resolved f g2 placed n) rem"
    by (auto intro: filter_cong)
  show ?case
  proof (cases "filter (resolved f g1 placed) rem = []")
    case True
    with l show ?thesis by (simp add: layering.simps[of f _ rem])
  next
    case False
    have "layering f g1 (filter (\<lambda>n. \<not> resolved f g1 placed n) rem) (placed @ map f (filter (resolved f g1 placed) rem)) (layers @ [filter (resolved f g1 placed) rem])
        = layering f g2 (filter (\<lambda>n. \<not> resolved f g1 placed n) rem) (placed @ map f (filter (resolved f g1 placed) rem)) (layers @ [filter (resolved f g1 placed) rem])"
      using "1.IH"[OF refl False] "1.prems" by simp
    with False l r show ?thesis by (simp add: layering.simps[of f _ rem] Let_def)
  qed
qed

section \<open>Properties of the sorted invocations\<close>

lemma build_dag_Inr:
  "list_all (\<lambda>(n, iv). StepInvocation.upstream_steps iv \<subseteq> set (map fst (invocations p))) items \<Longrightarrow>
   distinct (map fst items) \<Longrightarrow> fst ` set acc \<inter> fst ` set items = {} \<Longrightarrow>
   build_dag ext p items acc = Inr (acc @ dag_of ext items)"
proof (induction items arbitrary: acc)
  case Nil
  then show ?case by (simp add: dag_of_def)
next
  case (Cons a items)
  obtain n iv where a: "a = (n, iv)" by (cases a)
  from Cons.prems(1) a have v: "verify_upstream_steps iv p = Inr ()"
    by (auto simp: verify_upstream_steps_def Let_def)
  from Cons.prems(3) a have fresh: "n \<notin> fst ` set acc" by auto
  have "build_dag ext p items (acc @ [(n, set_iteration ext (StepInvocation.upstream_steps iv))])
        = Inr ((acc @ [(n, set_iteration ext (StepInvocation.upstream_steps iv))]) @ dag_of ext items)"
    using Cons.prems a by (intro Cons.IH) auto
  with v fresh a show ?case by (simp add: update_fresh dag_of_def)
qed

lemma build_dag_Inl:
  "\<not> list_all (\<lambda>(n, iv). StepInvocation.upstream_steps iv \<subseteq> set (map fst (invocations p))) items \<Longrightarrow>
   \<exists>n iv. (n, iv) \<in> set items \<and> StepInvocation.upstream_steps iv - set (map fst (invocations p)) \<noteq> {} \<and>
     (\<forall>ext acc. build_dag ext p items acc =
        Inl (RuntimeError (InvalidUpstreamSteps
          (StepInvocation.upstream_steps iv - set (map fst (invocations p)))
          (set (map fst (invocations p))))))"
proof (induction items)
  case Nil
  then show ?case by simp
next
  case (Cons a items)
  obtain n iv where a: "a = (n, iv)" by (cases a)
  show ?case
  proof (cases "StepInvocation.upstream_steps iv \<subseteq> set (map fst (invocations p))")
    case True
    then have v: "verify_upstream_steps iv p = Inr ()"
      by (auto simp: verify_upstream_steps_def Let_def)
    from True Cons.prems a have "\<not> list_all (\<lambda>(n, iv). StepInvocation.upstream_steps iv \<subseteq> set (map fst (invocations p))) items"
      by simp
    from Cons.IH[OF this] obtain n' iv' where
      "(n', iv') \<in> set items" "StepInvocation.upstream_steps iv' - set (map fst (invocations p)) \<noteq> {}"
      "\<forall>ext acc. build_dag ext p items acc = Inl (RuntimeError (InvalidUpstreamSteps
          (StepInvocation.upstream_steps iv' - set (map fst (invocations p)))
          (set (map fst (invocations p)))))" by blast
    with v a show ?thesis by (intro exI[of _ n'] exI[of _ iv']) simp
  next
    case False
    then have "verify_upstream_steps iv p = Inl (RuntimeError (InvalidUpstreamSteps
          (StepInvocation.upstream_steps iv - set (map fst (invocations p)))
          (set (map fst (invocations p)))))"
      by (auto simp: verify_upstream_steps_def Let_def)
    with False a show ?thesis by (intro exI[of _ n] exI[of _ iv]) auto
  qed
qed

lemma lookup_invocations_Inr:
  "set names \<subseteq> fst ` set (invocations p) \<Longrightarrow>
   lookup_invocations p names = Inr (map (\<lambda>n. (n, the (map_of (invocations p) n))) names)"
proof (induction names)
  case Nil
  then show ?case by simp
next
  case (Cons n names)
  then obtain iv where "map_of (invocations p) n = Some iv"
    by (cases "map_of (invocations p) n") (auto simp: map_of_eq_None_iff)
  with Cons show ?case by simp
qed

lemma takeWhile_rank:
  "u \<in> set (take i xs) \<Longrightarrow> length (takeWhile (\<lambda>x. x \<noteq> u) xs) < i"
proof (induction xs arbitrary: i)
  case Nil
  then show ?case by simp
next
  case (Cons x xs)
  then show ?case by (cases i) auto
qed

lemma takeWhile_first:
  "n \<in> set xs \<Longrightarrow>
   length (takeWhile (\<lambda>x. x \<noteq> n) xs) < length xs \<and> xs ! length (takeWhile (\<lambda>x. x \<noteq> n) xs) = n"
  by (induction xs) auto

lemma after_parents_acyclic:
  assumes ap: "after_parents (\<lambda>n. n) g names"
    and edges: "\<forall>(u, n)\<in>G. n \<in> set names \<and> u \<in> set (g n)"
  shows "acyclic G"
proof -
  let ?rank = "\<lambda>n. length (takeWhile (\<lambda>x. x \<noteq> n) names)"
  have "G \<subseteq> measure ?rank"
  proof
    fix e assume e: "e \<in> G"
    obtain u n where un: "e = (u, n)" by (cases e)
    with e edges have n: "n \<in> set names" and u: "u \<in> set (g n)" by auto
    from n have i: "?rank n < length names" and nth: "names ! ?rank n = n"
      using takeWhile_first[of n names] by simp_all
    from ap i u nth have "u \<in> set (take (?rank n) names)" by (auto simp: after_parents_def)
    then have "?rank u < ?rank n" by (rule takeWhile_rank)
    with un show "e \<in> measure ?rank" by simp
  qed
  moreover have "acyclic (measure ?rank)" by (rule wf_acyclic) simp
  ultimately show ?thesis by (rule acyclic_subset[rotated])
qed


lemma getitem_dag_of:
  assumes "iterates_sets ext" "distinct (map fst items)" "(n, iv) \<in> set items"
    "finite (StepInvocation.upstream_steps iv)"
  shows "set (getitem (dag_of ext items) n) = StepInvocation.upstream_steps iv"
proof -
  from assms(2,3) have "map_of items n = Some iv" by simp
  then have "map_of (dag_of ext items) n = Some (set_iteration ext (StepInvocation.upstream_steps iv))"
    by (simp add: dag_of_def map_of_map)
  with assms(1,4) show ?thesis by (simp add: getitem_def iterates_sets_def)
qed

lemma sorted_invocations_layers:
  assumes it: "iterates_sets ext" and d: "distinct (map fst (invocations p))"
    and c: "upstream_defined p"
  shows "\<exists>L R. set (concat L) \<union> set R = fst ` set (invocations p) \<and> distinct (concat L @ R) \<and>
           (\<forall>i<length (concat L). \<forall>iv. (concat L ! i, iv) \<in> set (invocations p) \<longrightarrow>
               StepInvocation.upstream_steps iv \<subseteq> set (take i (concat L))) \<and>
           (R = []) = acyclic (dependency_graph p) \<and>
           get_sorted_invocations ext p =
             (if R = [] then Inr (map (\<lambda>n. (n, the (map_of (invocations p) n))) (concat L))
              else Inl (RuntimeError (CycleDetected R)))"
proof -
  let ?invs = "invocations p"
  let ?K = "map fst ?invs"
  let ?dag = "dag_of ext ?invs"
  let ?g = "getitem ?dag"
  let ?up = "StepInvocation.upstream_steps"
  obtain L R where lay: "layering (\<lambda>node. node) ?g ?K [] [] = (L, R)"
    by (cases "layering (\<lambda>node. node) ?g ?K [] []")
  from c have closed: "\<And>n iv. (n, iv) \<in> set ?invs \<Longrightarrow> ?up iv \<subseteq> set ?K"
    by (auto simp: upstream_defined_def list_all_iff)
  have fin: "\<And>n iv. (n, iv) \<in> set ?invs \<Longrightarrow> finite (?up iv)"
    using closed by (meson List.finite_set finite_subset)
  have g: "\<And>n iv. (n, iv) \<in> set ?invs \<Longrightarrow> set (?g n) = ?up iv"
    using getitem_dag_of[OF it d] fin by blast
  have bd: "build_dag ext p ?invs [] = Inr ?dag"
    using build_dag_Inr[of p ?invs "[]" ext] c d by (simp add: upstream_defined_def)
  have keys: "map fst ?dag = ?K" by (simp add: dag_of_def comp_def case_prod_unfold)
  from layering_content[OF lay] d have
    cont: "set (concat L) \<union> set R = set ?K" and dist: "distinct (concat L @ R)" by auto
  from layering_order[OF lay] have
    ap: "after_parents (\<lambda>n. n) ?g (concat L)"
    and stuck: "\<forall>n\<in>set R. \<exists>q\<in>set (?g n). q \<notin> set (concat L)"
    by (simp_all add: after_parents_def)
  have order: "\<forall>i<length (concat L). \<forall>iv. (concat L ! i, iv) \<in> set ?invs \<longrightarrow>
      ?up iv \<subseteq> set (take i (concat L))"
  proof (intro allI impI)
    fix i iv assume i: "i < length (concat L)" and m: "(concat L ! i, iv) \<in> set ?invs"
    from ap i have "set (?g (concat L ! i)) \<subseteq> set (take i (concat L))"
      by (auto simp: after_parents_def)
    with g[OF m] show "?up iv \<subseteq> set (take i (concat L))" by simp
  qed
  have cyc: "(R = []) = acyclic (dependency_graph p)"
  proof
    assume R: "R = []"
    have "\<forall>(u, n)\<in>dependency_graph p. n \<in> set (concat L) \<and> u \<in> set (?g n)"
    proof (clarify)
      fix u n assume "(u, n) \<in> dependency_graph p"
      then obtain iv where m: "(n, iv) \<in> set ?invs" and u: "u \<in> ?up iv"
        by (auto simp: dependency_graph_def)
      from m have "n \<in> set ?K" by force
      with cont R g[OF m] u show "n \<in> set (concat L) \<and> u \<in> set (?g n)" by simp
    qed
    with ap show "acyclic (dependency_graph p)" by (rule after_parents_acyclic)
  next
    assume ac: "acyclic (dependency_graph p)"
    have "dependency_graph p \<subseteq> set ?K \<times> set ?K"
      using closed by (force simp: dependency_graph_def)
    then have "finite (dependency_graph p)" by (rule finite_subset) simp
    then have wf: "wf (dependency_graph p)" using ac by (rule finite_acyclic_wf)
    show "R = []"
    proof (rule ccontr)
      assume "R \<noteq> []"
      then obtain x where "x \<in> set R" by (cases R) auto
      with wf obtain z where z: "z \<in> set R" and
        min: "\<And>y. (y, z) \<in> dependency_graph p \<Longrightarrow> y \<notin> set R"
        by (rule wfE_min[of "dependency_graph p" x "set R"]) blast
      from z cont have "z \<in> set ?K" by auto
      then obtain iv where m: "(z, iv) \<in> set ?invs" by auto
      from stuck z obtain q where q: "q \<in> set (?g z)" "q \<notin> set (concat L)" by blast
      with g[OF m] have qu: "q \<in> ?up iv" by simp
      with m have "(q, z) \<in> dependency_graph p" by (auto simp: dependency_graph_def)
      then have "q \<notin> set R" by (rule min)
      moreover from qu closed[OF m] have "q \<in> set ?K" by auto
      ultimately show False using cont q(2) by auto
    qed
  qed
  have res: "get_sorted_invocations ext p =
             (if R = [] then Inr (map (\<lambda>n. (n, the (map_of ?invs n))) (concat L))
              else Inl (RuntimeError (CycleDetected R)))"
  proof (cases "R = []")
    case True
    with cont have "set (concat L) \<subseteq> fst ` set ?invs" by auto
    from lookup_invocations_Inr[OF this] True bd keys lay show ?thesis
      by (simp add: get_sorted_invocations_def topsorted_layers_def)
  next
    case False
    with bd keys lay show ?thesis
      by (simp add: get_sorted_invocations_def topsorted_layers_def)
  qed
  from cont dist order cyc res show ?thesis by (intro exI[of _ L] exI[of _ R]) simp
qed

section \<open>Properties of compile\<close>

lemma build_dag_cong:
  "invocations p = invocations q \<Longrightarrow> build_dag ext p items acc = build_dag ext q items acc"
  by (induction items arbitrary: acc) (auto simp: verify_upstream_steps_def split: sum.splits)

lemma lookup_invocations_cong:
  "invocations p = invocations q \<Longrightarrow> lookup_invocations p names = lookup_invocations q names"
  by (induction names) (auto split: option.splits sum.splits)

lemma get_sorted_invocations_cong:
  "invocations p = invocations q \<Longrightarrow> get_sorted_invocations ext p = get_sorted_invocations ext q"
proof -
  assume a: "invocations p = invocations q"
  then have l: "lookup_invocations p = lookup_invocations q"
    by (intro ext lookup_invocations_cong)
  have b: "build_dag ext p (invocations q) [] = build_dag ext q (invocations q) []"
    by (rule build_dag_cong[OF a])
  show ?thesis unfolding get_sorted_invocations_def a b l by (rule refl)
qed

lemma invocations_pipeline_configure [simp]:
  "invocations (pipeline_configure p upd m) = invocations p"
  by (simp add: pipeline_configure_def)

lemma invocations_on_step [simp]: "invocations (on_step i m p) = invocations p"
  by (simp add: on_step_def)

lemma invocations_apply_step_configurations [simp]:
  "invocations (fst (apply_step_configurations ext cs p)) = invocations p"
  by (induction cs arbitrary: p) (auto split: option.splits)

lemma invocations_fold_on_step:
  "invocations (fold (\<lambda>iv. on_step (step iv) (m iv)) ivs p) = invocations p"
  by (induction ivs arbitrary: p) auto

lemma invocations_configure_all_steps [simp]:
  "invocations (configure_all_steps ext upd p) = invocations p"
  unfolding configure_all_steps_def by (rule invocations_fold_on_step)

lemma apply_step_configurations_invocations:
  "apply_step_configurations ext cs p = (q, r) \<Longrightarrow> invocations q = invocations p"
  using invocations_apply_step_configurations[of ext cs p] by simp

lemma invocations_apply_run_configuration [simp]:
  "invocations (fst (apply_run_configuration ext p cfg)) = invocations p"
  by (auto simp: apply_run_configuration_def Let_def split: prod.splits sum.splits
      dest!: apply_step_configurations_invocations)

lemma stack_default_settings_loop_Inr:
  "\<exists>d. stack_default_settings_loop cs ps = Inr d"
  by (induction cs arbitrary: ps)
     (auto simp: get_default_settings_def Let_def split: option.splits)

lemma apply_stack_default_settings_Inr:
  "snd (apply_stack_default_settings p stack) = Inr ()"
  using stack_default_settings_loop_Inr[of "map snd (components stack)" "Configuration.settings (Pipeline.configuration p)"]
  by (auto simp: apply_stack_default_settings_def)

lemma invocations_apply_stack_default_settings [simp]:
  "invocations (fst (apply_stack_default_settings p stack)) = invocations p"
  by (auto simp: apply_stack_default_settings_def split: sum.splits)


lemma deepcopy_store [simp]:
  "store (snd (deepcopy a h)) (fst (deepcopy a h)) = store h a"
  by (simp add: deepcopy_def)

lemma compile_depends_on_pipeline:
  assumes "store h a = store h' a'"
  shows "snd (compile ext a stack cfg h) = snd (compile ext a' stack cfg h')"
  using assms
  by (simp add: compile_def deepcopy_def Let_def split: prod.splits sum.splits option.splits)


lemma compile_cases:
  fixes ext a stack cfg h
  defines "p1 \<equiv> fst (apply_run_configuration ext (store h a) cfg)"
  defines "p2 \<equiv> fst (apply_stack_default_settings p1 stack)"
  defines "fv \<equiv> filter_and_validate_settings ext
                    (Configuration.settings (Pipeline.configuration p2)) PIPELINE stack"
  defines "p3 \<equiv> (\<lambda>ps. pipeline_configure p2
                    (no_update\<lparr>ConfigurationUpdate.settings := Some ps\<rparr>) False)"
  defines "result \<equiv> snd (snd (compile ext a stack cfg h))"
  obtains
    (run_configuration) e where
      "snd (apply_run_configuration ext (store h a) cfg) = Inl e" "result = Inl e"
  | (run_name) e where
      "snd (apply_run_configuration ext (store h a) cfg) = Inr ()"
      "run_name_check cfg = Inl e" "result = Inl e"
  | (pipeline_settings) e where
      "snd (apply_run_configuration ext (store h a) cfg) = Inr ()"
      "run_name_check cfg = Inr ()" "snd fv = Inl e" "result = Inl e"
  | (sorting) ps e where
      "snd (apply_run_configuration ext (store h a) cfg) = Inr ()"
      "run_name_check cfg = Inr ()" "snd fv = Inr ps"
      "get_sorted_invocations ext (p3 ps) = Inl e" "result = Inl e"
  | (steps) ps sorted e where
      "snd (apply_run_configuration ext (store h a) cfg) = Inr ()"
      "run_name_check cfg = Inr ()" "snd fv = Inr ps"
      "get_sorted_invocations ext (p3 ps) = Inr sorted"
      "snd (compile_steps ext (p3 ps) (filter (\<lambda>(key, s). STEP \<in> LEVEL s) ps) stack sorted []
              (fst fv)) = Inl e"
      "result = Inl e"
  | (requirements) ps sorted compiled e where
      "snd (apply_run_configuration ext (store h a) cfg) = Inr ()"
      "run_name_check cfg = Inr ()" "snd fv = Inr ps"
      "get_sorted_invocations ext (p3 ps) = Inr sorted"
      "snd (compile_steps ext (p3 ps) (filter (\<lambda>(key, s). STEP \<in> LEVEL s) ps) stack sorted []
              (fst fv)) = Inr compiled"
      "ensure_required_stack_components_exist stack compiled = Inl e"
      "result = Inl e"
  | (success) ps sorted compiled where
      "snd (apply_run_configuration ext (store h a) cfg) = Inr ()"
      "run_name_check cfg = Inr ()" "snd fv = Inr ps"
      "get_sorted_invocations ext (p3 ps) = Inr sorted"
      "snd (compile_steps ext (p3 ps) (filter (\<lambda>(key, s). STEP \<in> LEVEL s) ps) stack sorted []
              (fst fv)) = Inr compiled"
      "ensure_required_stack_components_exist stack compiled = Inr ()"
      "result = Inr (\<lparr>run_name_template =
                        (if truthy (run_name cfg)
                         then (case run_name cfg of Some rn \<Rightarrow> rn | None \<Rightarrow> [])
                         else get_default_run_name (Pipeline.name (p3 ps))),
                      pipeline_configuration = Pipeline.configuration (p3 ps),
                      step_configurations = compiled,
                      client_environment = get_run_environment_dict ext\<rparr>,
                     compute_pipeline_spec (p3 ps)
                       (map (\<lambda>(name_in_pipeline, compiled_step). spec compiled_step) compiled))"
proof -
  let ?h = "h\<lparr>store := (store h)(next_free h := store h a), next_free := Suc (next_free h)\<rparr>"
  obtain q1 r1 where ar: "apply_run_configuration ext (store h a) cfg = (q1, r1)"
    by (cases "apply_run_configuration ext (store h a) cfg")
  have q1: "p1 = q1" by (simp add: p1_def ar)
  show ?thesis
  proof (cases r1)
    case (Inl e)
    with ar have "result = Inl e"
      by (simp add: result_def compile_def deepcopy_def)
    with ar Inl show ?thesis by (intro run_configuration[of e]) simp_all
  next
    case (Inr u1)
    then have r1: "snd (apply_run_configuration ext (store h a) cfg) = Inr ()"
      using ar by simp
    obtain q2 r2 where sd: "apply_stack_default_settings q1 stack = (q2, r2)"
      by (cases "apply_stack_default_settings q1 stack")
    with apply_stack_default_settings_Inr[of q1 stack] have r2: "r2 = Inr ()" by simp
    have q2: "p2 = q2" by (simp add: p2_def q1 sd)
    have c1: "compile ext a stack cfg h =
      (case run_name_check cfg of
        Inl e \<Rightarrow> (put (next_free h) q2 ?h, [], Inl e)
      | Inr _ \<Rightarrow>
      case filter_and_validate_settings ext
             (Configuration.settings (Pipeline.configuration q2)) PIPELINE stack of
        (logged, Inl e) \<Rightarrow> (put (next_free h) q2 ?h, logged, Inl e)
      | (logged, Inr pipeline_settings) \<Rightarrow>
      (let p3 = pipeline_configure q2
                  (no_update\<lparr>ConfigurationUpdate.settings := Some pipeline_settings\<rparr>) False;
           settings_to_passdown = filter (\<lambda>(key, s). STEP \<in> LEVEL s) pipeline_settings
       in case get_sorted_invocations ext p3 of
            Inl e \<Rightarrow> (put (next_free h) p3 ?h, logged, Inl e)
          | Inr sorted_invocations \<Rightarrow>
          case compile_steps ext p3 settings_to_passdown stack sorted_invocations [] logged of
            (logged, Inl e) \<Rightarrow> (put (next_free h) p3 ?h, logged, Inl e)
          | (logged, Inr compiled) \<Rightarrow>
          case ensure_required_stack_components_exist stack compiled of
            Inl e \<Rightarrow> (put (next_free h) p3 ?h, logged, Inl e)
          | Inr _ \<Rightarrow>
          (let run_name_template_value =
                 (if truthy (run_name cfg)
                  then (case run_name cfg of Some rn \<Rightarrow> rn | None \<Rightarrow> [])
                  else get_default_run_name (Pipeline.name p3));
               deployment =
                 \<lparr>run_name_template = run_name_template_value,
                  pipeline_configuration = Pipeline.configuration p3,
                  step_configurations = compiled,
                  client_environment = get_run_environment_dict ext\<rparr>;
               step_specs = map (\<lambda>(name_in_pipeline, compiled_step). spec compiled_step) compiled;
               pipeline_spec = compute_pipeline_spec p3 step_specs
           in (put (next_free h) p3 ?h, logged, Inr (deployment, pipeline_spec)))))"
      unfolding compile_def deepcopy_def run_name_check_def
      by (simp add: ar Inr sd r2)
    show ?thesis
    proof (cases "run_name_check cfg")
      case (Inl e)
      with c1 have "result = Inl e" by (simp add: result_def)
      with r1 Inl show ?thesis by (intro run_name[of e]) simp_all
    next
      case rn: (Inr u2)
      obtain lg r3 where f: "filter_and_validate_settings ext
             (Configuration.settings (Pipeline.configuration q2)) PIPELINE stack = (lg, r3)"
        by (cases "filter_and_validate_settings ext
             (Configuration.settings (Pipeline.configuration q2)) PIPELINE stack")
      then have fv: "fv = (lg, r3)" by (simp add: fv_def q2)
      show ?thesis
      proof (cases r3)
        case (Inl e)
        with c1 rn f have "result = Inl e" by (simp add: result_def)
        with r1 rn fv Inl show ?thesis by (intro pipeline_settings[of e]) simp_all
      next
        case ps: (Inr ps)
        let ?p3 = "pipeline_configure q2
                  (no_update\<lparr>ConfigurationUpdate.settings := Some ps\<rparr>) False"
        have p3: "p3 ps = ?p3" by (simp add: p3_def q2)
        show ?thesis
        proof (cases "get_sorted_invocations ext ?p3")
          case (Inl e)
          with c1 rn f ps have "result = Inl e" by (simp add: result_def)
          with r1 rn fv ps Inl p3 show ?thesis by (intro sorting[of ps e]) simp_all
        next
          case so: (Inr sorted)
          obtain lg2 r4 where cs: "compile_steps ext ?p3 (filter (\<lambda>(key, s). STEP \<in> LEVEL s) ps)
              stack sorted [] lg = (lg2, r4)"
            by (cases "compile_steps ext ?p3 (filter (\<lambda>(key, s). STEP \<in> LEVEL s) ps)
              stack sorted [] lg")
          show ?thesis
          proof (cases r4)
            case (Inl e)
            with c1 rn f ps so cs have "result = Inl e" by (simp add: result_def)
            with r1 rn fv ps so cs Inl p3 show ?thesis
              by (intro steps[of ps sorted e]) simp_all
          next
            case cp: (Inr compiled)
            show ?thesis
            proof (cases "ensure_required_stack_components_exist stack compiled")
              case (Inl e)
              with c1 rn f ps so cs cp have "result = Inl e" by (simp add: result_def)
              with r1 rn fv ps so cs cp Inl p3 show ?thesis
                by (intro requirements[of ps sorted compiled e]) simp_all
            next
              case (Inr u3)
              with c1 rn f ps so cs cp have
                "result = Inr (\<lparr>run_name_template =
                        (if truthy (run_name cfg)
                         then (case run_name cfg of Some rn \<Rightarrow> rn | None \<Rightarrow> [])
                         else get_default_run_name (Pipeline.name ?p3)),
                      pipeline_configuration = Pipeline.configuration ?p3,
                      step_configurations = compiled,
                      client_environment = get_run_environment_dict ext\<rparr>,
                     compute_pipeline_spec ?p3
                       (map (\<lambda>(name_in_pipeline, compiled_step). spec compiled_step) compiled))"
                by (simp add: result_def Let_def)
              with r1 rn fv ps so cs cp Inr p3 show ?thesis
                by (intro success[of ps sorted compiled]) simp_all
            qed
          qed
        qed
      qed
    qed
  qed
qed

lemma compile_spec_result:
  "snd (compile_spec ext a h) =
     (case get_sorted_invocations ext (store h a) of
        Inl e \<Rightarrow> Inl e
      | Inr sorted_invocations \<Rightarrow>
          Inr (compute_pipeline_spec (store h a)
                 (map (\<lambda>(name_in_pipeline, iv). get_step_spec (store h a) iv)
                    sorted_invocations)))"
  by (simp add: compile_spec_def deepcopy_def Let_def split: sum.splits)

lemma compile_sorting_failure:
  assumes "get_sorted_invocations ext (store h a) = Inl e0"
  shows "\<exists>e. snd (snd (compile ext a stack cfg h)) = Inl e \<and>
           (e = e0 \<or>
            snd (apply_run_configuration ext (store h a) cfg) = Inl e \<or>
            run_name_check cfg = Inl e \<or>
            snd (filter_and_validate_settings ext
                   (Configuration.settings (Pipeline.configuration
                      (fst (apply_stack_default_settings
                              (fst (apply_run_configuration ext (store h a) cfg)) stack))))
                   PIPELINE stack) = Inl e)"
proof -
  have s: "\<And>q. invocations q = invocations (store h a) \<Longrightarrow> get_sorted_invocations ext q = Inl e0"
    using assms get_sorted_invocations_cong by metis
  show ?thesis
  proof (cases rule: compile_cases[of ext h a cfg stack])
    case (sorting ps e)
    from s[of "pipeline_configure
            (fst (apply_stack_default_settings
                   (fst (apply_run_configuration ext (store h a) cfg)) stack))
            (no_update\<lparr>ConfigurationUpdate.settings := Some ps\<rparr>) False"] sorting
    show ?thesis by simp
  next
    case (steps ps sorted e)
    from s[of "pipeline_configure
            (fst (apply_stack_default_settings
                   (fst (apply_run_configuration ext (store h a) cfg)) stack))
            (no_update\<lparr>ConfigurationUpdate.settings := Some ps\<rparr>) False"] steps
    show ?thesis by simp
  next
    case (requirements ps sorted compiled e)
    from s[of "pipeline_configure
            (fst (apply_stack_default_settings
                   (fst (apply_run_configuration ext (store h a) cfg)) stack))
            (no_update\<lparr>ConfigurationUpdate.settings := Some ps\<rparr>) False"] requirements
    show ?thesis by simp
  next
    case (success ps sorted compiled)
    from s[of "pipeline_configure
            (fst (apply_stack_default_settings
                   (fst (apply_run_configuration ext (store h a) cfg)) stack))
            (no_update\<lparr>ConfigurationUpdate.settings := Some ps\<rparr>) False"] success
    show ?thesis by simp
  qed auto
qed


lemma compile_frame:
  "b < next_free h \<Longrightarrow> store (fst (compile ext a stack cfg h)) b = store h b"
  by (simp add: compile_def deepcopy_def put_def Let_def
      split: prod.splits sum.splits option.splits)

lemma compile_spec_frame:
  "b < next_free h \<Longrightarrow> store (fst (compile_spec ext a h)) b = store h b"
  by (simp add: compile_spec_def deepcopy_def Let_def split: prod.splits sum.splits)

lemma get_sorted_invocations_iteration:
  assumes "iterates_sets ext" and "iterates_sets ext'" and d: "distinct (map fst (invocations p))"
  shows "get_sorted_invocations ext p = get_sorted_invocations ext' p"
proof (cases "upstream_defined p")
  case False
  then have "\<not> list_all (\<lambda>(n, iv). StepInvocation.upstream_steps iv
      \<subseteq> set (map fst (invocations p))) (invocations p)"
    by (simp add: upstream_defined_def)
  from build_dag_Inl[OF this] show ?thesis
    by (auto simp: get_sorted_invocations_def)
next
  case True
  let ?invs = "invocations p"
  have closed: "list_all (\<lambda>(n, iv). StepInvocation.upstream_steps iv
      \<subseteq> set (map fst ?invs)) ?invs"
    using True by (simp add: upstream_defined_def)
  have bd: "\<And>e. build_dag e p ?invs [] = Inr (dag_of e ?invs)"
    using build_dag_Inr[OF closed d, of "[]"] by simp
  have keys: "\<And>e. map fst (dag_of e ?invs) = map fst ?invs"
    by (simp add: dag_of_def comp_def case_prod_unfold)
  have fin: "\<And>n iv. (n, iv) \<in> set ?invs \<Longrightarrow> finite (StepInvocation.upstream_steps iv)"
  proof -
    fix n iv assume "(n, iv) \<in> set ?invs"
    with closed have "StepInvocation.upstream_steps iv \<subseteq> set (map fst ?invs)"
      by (auto simp: list_all_iff)
    then show "finite (StepInvocation.upstream_steps iv)" by (rule finite_subset) simp
  qed
  have "\<forall>n\<in>set (map fst ?invs).
          set (getitem (dag_of ext ?invs) n) = set (getitem (dag_of ext' ?invs) n)"
  proof
    fix n assume "n \<in> set (map fst ?invs)"
    then obtain iv where m: "(n, iv) \<in> set ?invs" by auto
    from getitem_dag_of[OF assms(1) d m fin[OF m]] getitem_dag_of[OF assms(2) d m fin[OF m]]
    show "set (getitem (dag_of ext ?invs) n) = set (getitem (dag_of ext' ?invs) n)" by simp
  qed
  then have "layering (\<lambda>node. node) (getitem (dag_of ext ?invs)) (map fst ?invs) [] []
           = layering (\<lambda>node. node) (getitem (dag_of ext' ?invs)) (map fst ?invs) [] []"
    by (rule layering_cong)
  then show ?thesis
    by (simp add: get_sorted_invocations_def bd keys topsorted_layers_def)
qed

lemma filter_and_validate_loop_ext:
  "resolve ext = resolve ext' \<Longrightarrow>
   filter_and_validate_loop ext lvl stack d v l = filter_and_validate_loop ext' lvl stack d v l"
proof (induction d arbitrary: v l)
  case Nil
  then show ?case by simp
next
  case (Cons a d)
  obtain key inst where a: "a = (key, inst)" by (cases a)
  from Cons show ?case unfolding a
    by (simp split: sum.split error.split)
qed

lemma filter_and_validate_settings_ext:
  "same_collaborators ext ext' \<Longrightarrow>
   filter_and_validate_settings ext d lvl stack = filter_and_validate_settings ext' d lvl stack"
  by (simp add: filter_and_validate_settings_def same_collaborators_def
      filter_and_validate_loop_ext[of ext ext'])

lemma apply_step_configurations_ext:
  "same_collaborators ext ext' \<Longrightarrow>
   apply_step_configurations ext cs p = apply_step_configurations ext' cs p"
proof (induction cs arbitrary: p)
  case Nil
  then show ?case by simp
next
  case (Cons a cs)
  obtain n u where a: "a = (n, u)" by (cases a)
  from Cons show ?case unfolding a
    by (simp add: same_collaborators_def split: option.split)
qed

lemma configure_all_steps_ext:
  "same_collaborators ext ext' \<Longrightarrow> configure_all_steps ext upd p = configure_all_steps ext' upd p"
  by (simp add: configure_all_steps_def same_collaborators_def)

lemma apply_run_configuration_ext:
  "same_collaborators ext ext' \<Longrightarrow>
   apply_run_configuration ext p cfg = apply_run_configuration ext' p cfg"
proof -
  assume s: "same_collaborators ext ext'"
  then have m: "merge_default ext = merge_default ext'" by (simp add: same_collaborators_def)
  have a: "\<And>cs q. apply_step_configurations ext cs q = apply_step_configurations ext' cs q"
    by (rule apply_step_configurations_ext[OF s])
  have c: "\<And>u q. configure_all_steps ext u q = configure_all_steps ext' u q"
    by (rule configure_all_steps_ext[OF s])
  show ?thesis unfolding apply_run_configuration_def m a c by (rule refl)
qed

lemma compile_step_invocation_ext:
  "same_collaborators ext ext' \<Longrightarrow>
   compile_step_invocation ext objs iv ps pe stack fh sh =
   compile_step_invocation ext' objs iv ps pe stack fh sh"
  by (simp add: compile_step_invocation_def filter_and_validate_settings_ext[of ext ext'])

lemma compile_steps_ext:
  "same_collaborators ext ext' \<Longrightarrow>
   compile_steps ext p ps stack sorted_invocations acc l =
   compile_steps ext' p ps stack sorted_invocations acc l"
proof (induction sorted_invocations arbitrary: acc l)
  case Nil
  then show ?case by simp
next
  case (Cons a sorted_invocations)
  obtain n iv where a: "a = (n, iv)" by (cases a)
  from Cons show ?case unfolding a
    by (simp add: compile_step_invocation_ext[of ext ext'] split: prod.split sum.split)
qed

lemma compile_environment:
  assumes i: "iterates_sets ext" and i': "iterates_sets ext'"
    and s: "same_collaborators ext ext'"
    and d: "distinct (map fst (invocations (store h a)))"
  shows "map_sum id (\<lambda>(deployment, pipeline_spec). (step_configurations deployment, pipeline_spec))
           (snd (snd (compile ext a stack cfg h))) =
         map_sum id (\<lambda>(deployment, pipeline_spec). (step_configurations deployment, pipeline_spec))
           (snd (snd (compile ext' a stack cfg h)))"
proof -
  have ar: "\<And>p. apply_run_configuration ext p cfg = apply_run_configuration ext' p cfg"
    by (rule apply_run_configuration_ext[OF s])
  have fv: "\<And>x l st. filter_and_validate_settings ext x l st = filter_and_validate_settings ext' x l st"
    by (rule filter_and_validate_settings_ext[OF s])
  have cs: "\<And>p ps st so acc l. compile_steps ext p ps st so acc l = compile_steps ext' p ps st so acc l"
    by (rule compile_steps_ext[OF s])
  have gs: "\<And>q. invocations q = invocations (store h a) \<Longrightarrow>
              get_sorted_invocations ext q = get_sorted_invocations ext' q"
    using get_sorted_invocations_iteration[OF i i'] d by simp
  show ?thesis
  proof (cases rule: compile_cases[of ext h a cfg stack])
    case (run_configuration e)
    then show ?thesis
      by (cases rule: compile_cases[of ext' h a cfg stack]) (simp_all add: ar)
  next
    case (run_name e)
    then show ?thesis
      by (cases rule: compile_cases[of ext' h a cfg stack]) (simp_all add: ar)
  next
    case (pipeline_settings e)
    then show ?thesis
      by (cases rule: compile_cases[of ext' h a cfg stack]) (simp_all add: ar fv)
  next
    case (sorting ps e)
    then show ?thesis
      by (cases rule: compile_cases[of ext' h a cfg stack]) (simp_all add: ar fv gs)
  next
    case (steps ps sorted e)
    then show ?thesis
      by (cases rule: compile_cases[of ext' h a cfg stack]) (simp_all add: ar fv gs cs)
  next
    case (requirements ps sorted compiled e)
    then show ?thesis
      by (cases rule: compile_cases[of ext' h a cfg stack]) (simp_all add: ar fv gs cs)
  next
    case (success ps sorted compiled)
    then show ?thesis
      by (cases rule: compile_cases[of ext' h a cfg stack]) (simp_all add: ar fv gs cs)
  qed
qed

lemma set_update_cases:
  "x \<in> set (AList.update k v al) \<Longrightarrow> x = (k, v) \<or> x \<in> set al"
  by (induction al) (auto split: if_splits)

lemma lookup_invocations_subset:
  "lookup_invocations p names = Inr res \<Longrightarrow> set res \<subseteq> set (invocations p)"
proof (induction names arbitrary: res)
  case Nil
  then show ?case by simp
next
  case (Cons n names)
  then show ?case
    by (auto split: option.splits sum.splits dest: map_of_SomeD)
qed

lemma get_sorted_invocations_subset:
  "get_sorted_invocations ext p = Inr res \<Longrightarrow> set res \<subseteq> set (invocations p)"
  by (auto simp: get_sorted_invocations_def Let_def split: sum.splits
      dest!: lookup_invocations_subset)

lemma compile_steps_entries:
  "compile_steps ext p ps stack sorted_invocations acc l = (l', Inr compiled) \<Longrightarrow>
   (n, s) \<in> set compiled \<Longrightarrow>
   (n, s) \<in> set acc \<or>
   (\<exists>iv lg. (n, iv) \<in> set sorted_invocations \<and>
      compile_step_invocation ext p iv ps (Configuration.extra (Pipeline.configuration p)) stack
        (Configuration.failure_hook_source (Pipeline.configuration p))
        (Configuration.success_hook_source (Pipeline.configuration p)) = (lg, Inr s))"
proof (induction sorted_invocations arbitrary: acc l)
  case Nil
  then show ?case by simp
next
  case (Cons a sorted_invocations)
  obtain n' iv' where a: "a = (n', iv')" by (cases a)
  obtain lg r where c: "compile_step_invocation ext p iv' ps
        (Configuration.extra (Pipeline.configuration p)) stack
        (Configuration.failure_hook_source (Pipeline.configuration p))
        (Configuration.success_hook_source (Pipeline.configuration p)) = (lg, r)"
    by (cases "compile_step_invocation ext p iv' ps
        (Configuration.extra (Pipeline.configuration p)) stack
        (Configuration.failure_hook_source (Pipeline.configuration p))
        (Configuration.success_hook_source (Pipeline.configuration p))")
  show ?case
  proof (cases r)
    case (Inl e)
    with Cons.prems(1) a c show ?thesis by simp
  next
    case (Inr s')
    with Cons.prems(1) a c have
      "compile_steps ext p ps stack sorted_invocations (AList.update n' s' acc) (l @ lg)
         = (l', Inr compiled)" by simp
    from Cons.IH[OF this Cons.prems(2)] show ?thesis
    proof
      assume "(n, s) \<in> set (AList.update n' s' acc)"
      from set_update_cases[OF this] show ?thesis
        using a c Inr by auto
    next
      assume "\<exists>iv lg. (n, iv) \<in> set sorted_invocations \<and>
        compile_step_invocation ext p iv ps (Configuration.extra (Pipeline.configuration p)) stack
          (Configuration.failure_hook_source (Pipeline.configuration p))
          (Configuration.success_hook_source (Pipeline.configuration p)) = (lg, Inr s)"
      then show ?thesis using a by auto
    qed
  qed
qed

lemma compile_step_invocation_result:
  assumes "compile_step_invocation ext p iv ps pe stack fh sh = (lg, Inr s)"
  shows "spec s = get_step_spec p iv"
    and "Configuration.enable_cache (Step.config s) =
           Configuration.enable_cache (BaseStep.configuration (step_objects p (step iv)))"
    and "Configuration.enable_artifact_metadata (Step.config s) =
           Configuration.enable_artifact_metadata (BaseStep.configuration (step_objects p (step iv)))"
    and "Configuration.enable_artifact_visualization (Step.config s) =
           Configuration.enable_artifact_visualization
             (BaseStep.configuration (step_objects p (step iv)))"
  using assms
  by (auto simp: compile_step_invocation_def Let_def step_apply_configuration_def
      apply_update_def no_update_def finalize_def split: prod.splits sum.splits)

lemma step_objects_pipeline_configure [simp]:
  "step_objects (pipeline_configure p upd m) = step_objects p"
  by (simp add: pipeline_configure_def)

lemma step_objects_apply_stack_default_settings [simp]:
  "step_objects (fst (apply_stack_default_settings p stack)) = step_objects p"
  by (auto simp: apply_stack_default_settings_def split: sum.splits)

lemma fold_on_step_preserve:
  "(\<And>s. P s \<Longrightarrow> P (f s)) \<Longrightarrow> P (step_objects q i) \<Longrightarrow>
   P (step_objects (fold (\<lambda>iv. on_step (step iv) f) ivs q) i)"
proof (induction ivs arbitrary: q)
  case Nil
  then show ?case by simp
next
  case (Cons x ivs)
  have "P (step_objects (on_step (step x) f q) i)"
    using Cons.prems by (auto simp: on_step_def)
  from Cons.IH[OF Cons.prems(1) this] show ?case by simp
qed

lemma fold_on_step_all:
  "(\<And>s. P (f s)) \<Longrightarrow> iv \<in> set ivs \<Longrightarrow>
   P (step_objects (fold (\<lambda>iv. on_step (step iv) f) ivs q) (step iv))"
proof (induction ivs arbitrary: q)
  case Nil
  then show ?case by simp
next
  case (Cons x ivs)
  show ?case
  proof (cases "iv = x")
    case True
    have "P (step_objects (on_step (step x) f q) (step x))"
      using Cons.prems(1) by (simp add: on_step_def)
    from fold_on_step_preserve[of P f, OF Cons.prems(1) this] True show ?thesis by simp
  next
    case False
    with Cons.prems(2) have "iv \<in> set ivs" by simp
    from Cons.IH[OF Cons.prems(1) this] show ?thesis by simp
  qed
qed

lemma configure_all_steps_all:
  "(\<And>s. P (step_apply_configuration s upd (merge_default ext))) \<Longrightarrow>
   (n, iv) \<in> set (invocations q) \<Longrightarrow>
   P (step_objects (configure_all_steps ext upd q) (step iv))"
  unfolding configure_all_steps_def
  by (rule fold_on_step_all) (auto intro: rev_image_eqI)

lemma configure_all_steps_preserve:
  "(\<And>s. P s \<Longrightarrow> P (step_apply_configuration s upd (merge_default ext))) \<Longrightarrow>
   P (step_objects q i) \<Longrightarrow> P (step_objects (configure_all_steps ext upd q) i)"
  unfolding configure_all_steps_def
  by (rule fold_on_step_preserve)

lemma step_apply_configuration_flags [simp]:
  "Configuration.enable_cache (BaseStep.configuration (step_apply_configuration s upd m)) =
     (case ConfigurationUpdate.enable_cache upd of
        None \<Rightarrow> Configuration.enable_cache (BaseStep.configuration s) | Some v \<Rightarrow> Some v)"
  "Configuration.enable_artifact_metadata (BaseStep.configuration (step_apply_configuration s upd m)) =
     (case ConfigurationUpdate.enable_artifact_metadata upd of
        None \<Rightarrow> Configuration.enable_artifact_metadata (BaseStep.configuration s)
      | Some v \<Rightarrow> Some v)"
  "Configuration.enable_artifact_visualization
     (BaseStep.configuration (step_apply_configuration s upd m)) =
     (case ConfigurationUpdate.enable_artifact_visualization upd of
        None \<Rightarrow> Configuration.enable_artifact_visualization (BaseStep.configuration s)
      | Some v \<Rightarrow> Some v)"
  by (simp_all add: step_apply_configuration_def apply_update_def)

lemma apply_run_configuration_flags:
  assumes ar: "apply_run_configuration ext p cfg = (p1, Inr ())"
    and m: "(n, iv) \<in> set (invocations p)"
  shows "PipelineRunConfiguration.enable_cache cfg = Some v \<Longrightarrow>
           Configuration.enable_cache (BaseStep.configuration (step_objects p1 (step iv))) = Some v"
    and "PipelineRunConfiguration.enable_artifact_metadata cfg = Some v \<Longrightarrow>
           Configuration.enable_artifact_metadata
             (BaseStep.configuration (step_objects p1 (step iv))) = Some v"
    and "PipelineRunConfiguration.enable_artifact_visualization cfg = Some v \<Longrightarrow>
           Configuration.enable_artifact_visualization
             (BaseStep.configuration (step_objects p1 (step iv))) = Some v"
proof -
  let ?p0 = "pipeline_configure p
              (no_update
                 \<lparr>ConfigurationUpdate.enable_cache := PipelineRunConfiguration.enable_cache cfg,
                  ConfigurationUpdate.enable_artifact_metadata :=
                    PipelineRunConfiguration.enable_artifact_metadata cfg,
                  ConfigurationUpdate.enable_artifact_visualization :=
                    PipelineRunConfiguration.enable_artifact_visualization cfg,
                  ConfigurationUpdate.settings := Some (PipelineRunConfiguration.settings cfg),
                  ConfigurationUpdate.extra := Some (PipelineRunConfiguration.extra cfg)\<rparr>)
              (merge_default ext)"
  obtain q r where as: "apply_step_configurations ext (PipelineRunConfiguration.steps cfg) ?p0 = (q, r)"
    by (cases "apply_step_configurations ext (PipelineRunConfiguration.steps cfg) ?p0")
  from apply_step_configurations_invocations[OF as] m have mq: "(n, iv) \<in> set (invocations q)"
    by simp
  let ?uc = "no_update\<lparr>ConfigurationUpdate.enable_cache :=
                          PipelineRunConfiguration.enable_cache cfg\<rparr>"
  let ?um = "no_update\<lparr>ConfigurationUpdate.enable_artifact_metadata :=
                          PipelineRunConfiguration.enable_artifact_metadata cfg\<rparr>"
  let ?uv = "no_update\<lparr>ConfigurationUpdate.enable_artifact_visualization :=
                          PipelineRunConfiguration.enable_artifact_visualization cfg\<rparr>"
  let ?p2 = "if PipelineRunConfiguration.enable_cache cfg \<noteq> None
             then configure_all_steps ext ?uc q else q"
  let ?p3 = "if PipelineRunConfiguration.enable_artifact_metadata cfg \<noteq> None
             then configure_all_steps ext ?um ?p2 else ?p2"
  let ?p4 = "if PipelineRunConfiguration.enable_artifact_visualization cfg \<noteq> None
             then configure_all_steps ext ?uv ?p3 else ?p3"
  have eq: "apply_run_configuration ext p cfg =
              (case r of Inl e \<Rightarrow> (q, Inl e) | Inr u \<Rightarrow> (?p4, Inr ()))"
    unfolding apply_run_configuration_def Let_def as by (simp only: prod.case)
  have p1: "p1 = ?p4"
  proof (cases r)
    case (Inl e)
    with eq ar show ?thesis by (simp only: sum.case prod.inject sum.distinct simp_thms)
  next
    case (Inr u)
    with eq ar have "(p1, Inr () :: error + unit) = (?p4, Inr ())"
      by (simp only: sum.case)
    then show ?thesis by (simp only: prod.inject)
  qed
  have m2: "(n, iv) \<in> set (invocations ?p2)" using mq by simp
  have m3: "(n, iv) \<in> set (invocations ?p3)" using mq by simp
  {
    assume c: "PipelineRunConfiguration.enable_cache cfg = Some v"
    let ?P = "\<lambda>s. Configuration.enable_cache (BaseStep.configuration s) = Some v"
    have "?P (step_objects ?p2 (step iv))"
      using c configure_all_steps_all[of ?P ?uc ext n iv q, OF _ mq]
      by (simp add: no_update_def)
    then have "?P (step_objects ?p3 (step iv))"
      using configure_all_steps_preserve[of ?P ?um ext ?p2 "step iv"]
      by (simp add: no_update_def)
    then have "?P (step_objects ?p4 (step iv))"
      using configure_all_steps_preserve[of ?P ?uv ext ?p3 "step iv"]
      by (simp add: no_update_def)
    then show "Configuration.enable_cache (BaseStep.configuration (step_objects p1 (step iv))) = Some v"
      by (simp only: p1)
  }
  {
    assume c: "PipelineRunConfiguration.enable_artifact_metadata cfg = Some v"
    let ?P = "\<lambda>s. Configuration.enable_artifact_metadata (BaseStep.configuration s) = Some v"
    have "?P (step_objects ?p3 (step iv))"
      using c configure_all_steps_all[of ?P ?um ext n iv ?p2, OF _ m2]
      by (simp add: no_update_def)
    then have "?P (step_objects ?p4 (step iv))"
      using configure_all_steps_preserve[of ?P ?uv ext ?p3 "step iv"]
      by (simp add: no_update_def)
    then show "Configuration.enable_artifact_metadata
             (BaseStep.configuration (step_objects p1 (step iv))) = Some v"
      by (simp only: p1)
  }
  {
    assume c: "PipelineRunConfiguration.enable_artifact_visualization cfg = Some v"
    let ?P = "\<lambda>s. Configuration.enable_artifact_visualization (BaseStep.configuration s) = Some v"
    have "?P (step_objects ?p4 (step iv))"
      using c configure_all_steps_all[of ?P ?uv ext n iv ?p3, OF _ m3]
      by (simp add: no_update_def)
    then show "Configuration.enable_artifact_visualization
             (BaseStep.configuration (step_objects p1 (step iv))) = Some v"
      by (simp only: p1)
  }
qed

lemma steps_compute_pipeline_spec [simp]:
  "PipelineSpec.steps (compute_pipeline_spec p step_specs) = step_specs"
  by (simp add: compute_pipeline_spec_def)

lemma compile_success_steps:
  assumes c: "snd (snd (compile ext a stack cfg h)) = Inr (d, sp)"
  shows "PipelineSpec.steps sp = map (\<lambda>(n, s). spec s) (step_configurations d)"
    and "(n, s) \<in> set (step_configurations d) \<Longrightarrow>
         \<exists>iv. (n, iv) \<in> set (invocations (store h a)) \<and>
           StepSpec.upstream_steps (spec s) = sorted_list_of_set (StepInvocation.upstream_steps iv) \<and>
           pipeline_parameter_name (spec s) = inv_id iv \<and>
           Configuration.enable_cache (Step.config s) =
             Configuration.enable_cache (BaseStep.configuration
               (step_objects (fst (apply_run_configuration ext (store h a) cfg)) (step iv))) \<and>
           Configuration.enable_artifact_metadata (Step.config s) =
             Configuration.enable_artifact_metadata (BaseStep.configuration
               (step_objects (fst (apply_run_configuration ext (store h a) cfg)) (step iv))) \<and>
           Configuration.enable_artifact_visualization (Step.config s) =
             Configuration.enable_artifact_visualization (BaseStep.configuration
               (step_objects (fst (apply_run_configuration ext (store h a) cfg)) (step iv)))"
proof -
  let ?p1 = "fst (apply_run_configuration ext (store h a) cfg)"
  let ?p2 = "fst (apply_stack_default_settings ?p1 stack)"
  let ?fv = "filter_and_validate_settings ext
               (Configuration.settings (Pipeline.configuration ?p2)) PIPELINE stack"
  from c obtain ps sorted_invs compiled where
    so: "get_sorted_invocations ext (pipeline_configure ?p2
           (no_update\<lparr>ConfigurationUpdate.settings := Some ps\<rparr>) False) = Inr sorted_invs"
    and cs: "snd (compile_steps ext (pipeline_configure ?p2
           (no_update\<lparr>ConfigurationUpdate.settings := Some ps\<rparr>) False)
           (filter (\<lambda>(key, s). STEP \<in> LEVEL s) ps) stack sorted_invs [] (fst ?fv)) = Inr compiled"
    and d: "step_configurations d = compiled"
    and sp: "sp = compute_pipeline_spec (pipeline_configure ?p2
           (no_update\<lparr>ConfigurationUpdate.settings := Some ps\<rparr>) False)
              (map (\<lambda>(n, s). spec s) compiled)"
    by (cases rule: compile_cases[of ext h a cfg stack]) auto
  let ?p3 = "pipeline_configure ?p2 (no_update\<lparr>ConfigurationUpdate.settings := Some ps\<rparr>) False"
  show "PipelineSpec.steps sp = map (\<lambda>(n, s). spec s) (step_configurations d)"
    by (simp add: sp d)
  assume "(n, s) \<in> set (step_configurations d)"
  then have m: "(n, s) \<in> set compiled" by (simp add: d)
  obtain l' where cs': "compile_steps ext ?p3 (filter (\<lambda>(key, s). STEP \<in> LEVEL s) ps) stack
      sorted_invs [] (fst ?fv) = (l', Inr compiled)"
    using cs by (cases "compile_steps ext ?p3 (filter (\<lambda>(key, s). STEP \<in> LEVEL s) ps) stack
      sorted_invs [] (fst ?fv)") simp
  from compile_steps_entries[OF cs' m] obtain iv lg where
    iv: "(n, iv) \<in> set sorted_invs"
    and ci: "compile_step_invocation ext ?p3 iv (filter (\<lambda>(key, s). STEP \<in> LEVEL s) ps)
        (Configuration.extra (Pipeline.configuration ?p3)) stack
        (Configuration.failure_hook_source (Pipeline.configuration ?p3))
        (Configuration.success_hook_source (Pipeline.configuration ?p3)) = (lg, Inr s)"
    by auto
  from get_sorted_invocations_subset[OF so] iv have "(n, iv) \<in> set (invocations (store h a))"
    by auto
  with compile_step_invocation_result[OF ci]
  show "\<exists>iv. (n, iv) \<in> set (invocations (store h a)) \<and>
           StepSpec.upstream_steps (spec s) = sorted_list_of_set (StepInvocation.upstream_steps iv) \<and>
           pipeline_parameter_name (spec s) = inv_id iv \<and>
           Configuration.enable_cache (Step.config s) =
             Configuration.enable_cache (BaseStep.configuration (step_objects ?p1 (step iv))) \<and>
           Configuration.enable_artifact_metadata (Step.config s) =
             Configuration.enable_artifact_metadata (BaseStep.configuration
               (step_objects ?p1 (step iv))) \<and>
           Configuration.enable_artifact_visualization (Step.config s) =
             Configuration.enable_artifact_visualization (BaseStep.configuration
               (step_objects ?p1 (step iv)))"
    by (intro exI[of _ iv]) (simp add: get_step_spec_def)
qed

section \<open>Evaluating the examples\<close>

lemmas compiler_defs =
  compile_def compile_spec_def deepcopy_def put_def apply_run_configuration_def
  apply_stack_default_settings_def pipeline_configure_def apply_update_def no_update_def
  filter_and_validate_settings_def get_sorted_invocations_def verify_upstream_steps_def
  topsorted_layers_def layering.simps resolved_def getitem_def reverse_dag_def
  compile_step_invocation_def step_apply_configuration_def get_step_spec_def finalize_def
  ensure_required_stack_components_exist_def missing_from_def compute_pipeline_spec_def
  truthy_def get_default_run_name_def configure_all_steps_def on_step_def
  combine_settings_def dict_update_def update_model_def get_stack_component_setting_key_def
  get_default_settings_def config_dict_def verify_run_name_def parse_def field_names_of_def
  yield_def run_name_check_def

lemmas example_defs =
  example_pipeline_def example_configuration_def example_step_def example_externals_def
  example_stack_def example_run_configuration_def example_heap_def cyclic_pipeline_def
  dangling_pipeline_def ghost_run_configuration_def cyclic_heap_def dangling_heap_def
  other_externals_def docker_settings_def kubernetes_settings_def
  settings_run_configuration_def named_run_configuration_def invalid_run_configuration_def
  anonymous_field_run_configuration_def single_brace_run_configuration_def

lemma example_iterates_sets: "iterates_sets example_externals"
  by (simp add: iterates_sets_def example_externals_def)

lemma example_dependency_graph: "dependency_graph example_pipeline = {(''A'', ''B'')}"
  by (simp add: dependency_graph_def example_pipeline_def)

lemma example_acyclic: "acyclic (dependency_graph example_pipeline)"
  by (simp add: example_dependency_graph acyclic_insert wf_acyclic)

lemma not_defined_Inl:
  "\<not> upstream_defined p \<Longrightarrow> \<exists>e. get_sorted_invocations ext p = Inl e"
  using build_dag_Inl[of p "invocations p"]
  by (auto simp: upstream_defined_def get_sorted_invocations_def)

lemma cyclic_pipeline_not_acyclic: "\<not> acyclic (dependency_graph cyclic_pipeline)"
proof -
  have g: "dependency_graph cyclic_pipeline = {(''A'', ''B''), (''B'', ''A'')}"
    by (simp add: dependency_graph_def example_defs)
  have "(''A'', ''A'') \<in> (dependency_graph cyclic_pipeline)\<^sup>+"
    unfolding g by (rule trancl_trans[of _ "''B''"]) (simp_all add: r_into_trancl)
  then show ?thesis by (auto simp: acyclic_def)
qed

section \<open>Filtering and validating settings\<close>

lemma filter_loop_append:
  "filter_and_validate_loop ext lvl stack (pre @ post) v l =
     (case filter_and_validate_loop ext lvl stack pre v l of
        (l1, Inl e) \<Rightarrow> (l1, Inl e)
      | (l1, Inr v1) \<Rightarrow> filter_and_validate_loop ext lvl stack post v1 l1)"
proof (induction pre arbitrary: v l)
  case Nil
  then show ?case by simp
next
  case (Cons a pre)
  obtain key inst where a: "a = (key, inst)" by (cases a)
  show ?case unfolding a using Cons
    by (simp split: sum.split error.split)
qed

lemma filter_loop_log:
  "filter_and_validate_loop ext lvl stack d v l =
     (l @ fst (filter_and_validate_loop ext lvl stack d v []),
      snd (filter_and_validate_loop ext lvl stack d v []))"
proof (induction d arbitrary: v l)
  case Nil
  then show ?case by simp
next
  case (Cons a d)
  obtain key inst where a: "a = (key, inst)" by (cases a)
  have r: "\<And>v l. filter_and_validate_loop ext lvl stack d v l =
     (l @ fst (filter_and_validate_loop ext lvl stack d v []),
      snd (filter_and_validate_loop ext lvl stack d v []))" by (rule Cons)
  show ?case unfolding a
    by (simp split: sum.split error.split) (metis r append.assoc append_Nil fst_conv snd_conv)
qed



lemma filter_loop_failure:
  "filter_and_validate_loop ext lvl stack d v l = (l', Inl e) \<Longrightarrow>
   \<exists>key inst. (key, inst) \<in> set d \<and>
     ((resolve ext stack key inst = Inl e \<and> (\<forall>m. e \<noteq> KeyError m)) \<or>
      (\<exists>r. resolve ext stack key inst = Inr r \<and> lvl \<notin> LEVEL r \<and>
           e = TypeError (UnsupportedLevel (py_class r) lvl)))"
proof (induction d arbitrary: v l)
  case Nil
  then show ?case by simp
next
  case (Cons a d)
  obtain key inst where a: "a = (key, inst)" by (cases a)
  show ?case
  proof (cases "resolve ext stack key inst")
    case (Inl e')
    show ?thesis
    proof (cases "\<exists>m. e' = KeyError m")
      case True
      then obtain m where "e' = KeyError m" ..
      with Cons.prems(1) a Inl have
        "filter_and_validate_loop ext lvl stack d v (l @ [NotIncludingSettings key]) = (l', Inl e)"
        by simp
      from Cons.IH[OF this] show ?thesis by auto
    next
      case False
      with Cons.prems(1) a Inl have "e = e'" by (cases e') simp_all
      with False Inl a show ?thesis by auto
    qed
  next
    case (Inr r')
    show ?thesis
    proof (cases "lvl \<in> LEVEL r'")
      case True
      with Cons.prems(1) a Inr have
        "filter_and_validate_loop ext lvl stack d (AList.update key r' v) l = (l', Inl e)"
        by simp
      from Cons.IH[OF this] show ?thesis by auto
    next
      case False
      with Cons.prems(1) a Inr have "e = TypeError (UnsupportedLevel (py_class r') lvl)" by simp
      with False Inr a show ?thesis by auto
    qed
  qed
qed

lemma filter_drop:
  assumes "resolve ext stack key inst = Inl (KeyError m)"
  shows "snd (filter_and_validate_settings ext (pre @ (key, inst) # post) lvl stack) =
         snd (filter_and_validate_settings ext (pre @ post) lvl stack)"
    and "snd (filter_and_validate_settings ext (pre @ (key, inst) # post) lvl stack) = Inr validated
         \<Longrightarrow> NotIncludingSettings key
               \<in> set (fst (filter_and_validate_settings ext (pre @ (key, inst) # post) lvl stack))"
proof -
  obtain l1 r1 where p: "filter_and_validate_loop ext lvl stack pre [] [] = (l1, r1)"
    by (cases "filter_and_validate_loop ext lvl stack pre [] []")
  show "snd (filter_and_validate_settings ext (pre @ (key, inst) # post) lvl stack) =
         snd (filter_and_validate_settings ext (pre @ post) lvl stack)"
  proof (cases r1)
    case (Inl e)
    with p show ?thesis
      by (simp add: filter_and_validate_settings_def filter_loop_append)
  next
    case (Inr v1)
    with p assms show ?thesis
      using filter_loop_log[of ext lvl stack post v1 "l1 @ [NotIncludingSettings key]"]
        filter_loop_log[of ext lvl stack post v1 l1]
      by (simp add: filter_and_validate_settings_def filter_loop_append)
  qed
  assume ok: "snd (filter_and_validate_settings ext (pre @ (key, inst) # post) lvl stack)
                = Inr validated"
  show "NotIncludingSettings key
          \<in> set (fst (filter_and_validate_settings ext (pre @ (key, inst) # post) lvl stack))"
  proof (cases r1)
    case (Inl e)
    with p ok show ?thesis
      by (simp add: filter_and_validate_settings_def filter_loop_append)
  next
    case (Inr v1)
    with p assms show ?thesis
      using filter_loop_log[of ext lvl stack post v1 "l1 @ [NotIncludingSettings key]"]
      by (simp add: filter_and_validate_settings_def filter_loop_append)
  qed
qed





section \<open>The run name\<close>

lemma name_pipeline_configure [simp]:
  "Pipeline.name (pipeline_configure p upd m) = Pipeline.name p"
  by (simp add: pipeline_configure_def)

lemma name_on_step [simp]: "Pipeline.name (on_step i m p) = Pipeline.name p"
  by (simp add: on_step_def)

lemma name_apply_step_configurations [simp]:
  "Pipeline.name (fst (apply_step_configurations ext cs p)) = Pipeline.name p"
  by (induction cs arbitrary: p) (auto split: option.splits)

lemma name_fold_on_step:
  "Pipeline.name (fold (\<lambda>iv. on_step (step iv) (m iv)) ivs p) = Pipeline.name p"
  by (induction ivs arbitrary: p) auto

lemma name_configure_all_steps [simp]:
  "Pipeline.name (configure_all_steps ext upd p) = Pipeline.name p"
  unfolding configure_all_steps_def by (rule name_fold_on_step)

lemma apply_step_configurations_name:
  "apply_step_configurations ext cs p = (q, r) \<Longrightarrow> Pipeline.name q = Pipeline.name p"
  using name_apply_step_configurations[of ext cs p] by simp

lemma name_apply_run_configuration [simp]:
  "Pipeline.name (fst (apply_run_configuration ext p cfg)) = Pipeline.name p"
  by (auto simp: apply_run_configuration_def Let_def split: prod.splits sum.splits
      dest!: apply_step_configurations_name)

lemma name_apply_stack_default_settings [simp]:
  "Pipeline.name (fst (apply_stack_default_settings p stack)) = Pipeline.name p"
  by (auto simp: apply_stack_default_settings_def split: sum.splits)

lemma yield_Inl: "yield x r = Inl e \<Longrightarrow> r = Inl e"
  by (cases r) (simp_all add: yield_def)

lemma formatter_parser_error:
  "formatter_parser st s = Inl e \<Longrightarrow> \<exists>m. e = ValueError (FormatString m)"
proof (induction st s rule: formatter_parser.induct)
  case (2 lit c cs)
  then show ?case
    by (auto split: if_splits list.splits dest!: yield_Inl)
next
  case (4 lit field_name c cs)
  then show ?case by (auto split: if_splits dest!: yield_Inl)
next
  case (10 lit field_name c cs)
  then show ?case by (auto split: if_splits dest!: yield_Inl)
next
  case (12 lit field_name n c cs)
  then show ?case by (auto split: if_splits dest!: yield_Inl)
qed (auto split: if_splits)

lemma verify_run_name_cases:
  "(case parse rn of
      Inl e \<Rightarrow> verify_run_name rn = Inl e \<and> (\<exists>m. e = ValueError (FormatString m))
    | Inr items \<Rightarrow>
        (if field_names_of items \<subseteq> {''date'', ''time''}
         then verify_run_name rn = Inr ()
         else verify_run_name rn = Inl (ValueError (InvalidRunName rn {''date'', ''time''}))))"
proof (cases "parse rn")
  case (Inl e)
  then have "\<exists>m. e = ValueError (FormatString m)"
    unfolding parse_def by (rule formatter_parser_error)
  with Inl show ?thesis by (simp add: verify_run_name_def)
next
  case (Inr items)
  then show ?thesis by (simp add: verify_run_name_def)
qed

lemma compile_run_name:
  shows "run_name_check cfg = Inl e \<Longrightarrow>
           \<exists>e'. snd (snd (compile ext a stack cfg h)) = Inl e' \<and>
             (e' = e \<or> snd (apply_run_configuration ext (store h a) cfg) = Inl e')"
    and "snd (snd (compile ext a stack cfg h)) = Inr (d, sp) \<Longrightarrow>
           run_name_check cfg = Inr () \<and>
           run_name_template d =
             (if truthy (run_name cfg) then (case run_name cfg of Some rn \<Rightarrow> rn | None \<Rightarrow> [])
              else get_default_run_name (Pipeline.name (store h a)))"
proof -
  assume "run_name_check cfg = Inl e"
  then show "\<exists>e'. snd (snd (compile ext a stack cfg h)) = Inl e' \<and>
             (e' = e \<or> snd (apply_run_configuration ext (store h a) cfg) = Inl e')"
    by (cases rule: compile_cases[of ext h a cfg stack]) auto
next
  assume "snd (snd (compile ext a stack cfg h)) = Inr (d, sp)"
  then show "run_name_check cfg = Inr () \<and>
           run_name_template d =
             (if truthy (run_name cfg) then (case run_name cfg of Some rn \<Rightarrow> rn | None \<Rightarrow> [])
              else get_default_run_name (Pipeline.name (store h a)))"
    by (cases rule: compile_cases[of ext h a cfg stack]) auto
qed

section \<open>The order of the stages\<close>

lemma compile_sorting_failure_stages:
  assumes "get_sorted_invocations ext (store h a) = Inl e0"
  shows "snd (snd (compile ext a stack cfg h)) =
           (case snd (apply_run_configuration ext (store h a) cfg) of
              Inl e \<Rightarrow> Inl e
            | Inr u \<Rightarrow>
           (case run_name_check cfg of
              Inl e \<Rightarrow> Inl e
            | Inr u \<Rightarrow>
           (case snd (filter_and_validate_settings ext
                   (Configuration.settings (Pipeline.configuration
                      (fst (apply_stack_default_settings
                              (fst (apply_run_configuration ext (store h a) cfg)) stack))))
                   PIPELINE stack) of
              Inl e \<Rightarrow> Inl e
            | Inr pipeline_settings \<Rightarrow> Inl e0)))"
proof -
  have s: "\<And>q. invocations q = invocations (store h a) \<Longrightarrow> get_sorted_invocations ext q = Inl e0"
    using assms get_sorted_invocations_cong by metis
  show ?thesis
  proof (cases rule: compile_cases[of ext h a cfg stack])
    case (run_configuration e)
    then show ?thesis by simp
  next
    case (run_name e)
    then show ?thesis by simp
  next
    case (pipeline_settings e)
    then show ?thesis by simp
  next
    case (sorting ps e)
    from s[of "pipeline_configure
            (fst (apply_stack_default_settings
                   (fst (apply_run_configuration ext (store h a) cfg)) stack))
            (no_update\<lparr>ConfigurationUpdate.settings := Some ps\<rparr>) False"] sorting
    show ?thesis by simp
  next
    case (steps ps sorted e)
    from s[of "pipeline_configure
            (fst (apply_stack_default_settings
                   (fst (apply_run_configuration ext (store h a) cfg)) stack))
            (no_update\<lparr>ConfigurationUpdate.settings := Some ps\<rparr>) False"] steps
    show ?thesis by simp
  next
    case (requirements ps sorted compiled e)
    from s[of "pipeline_configure
            (fst (apply_stack_default_settings
                   (fst (apply_run_configuration ext (store h a) cfg)) stack))
            (no_update\<lparr>ConfigurationUpdate.settings := Some ps\<rparr>) False"] requirements
    show ?thesis by simp
  next
    case (success ps sorted compiled)
    from s[of "pipeline_configure
            (fst (apply_stack_default_settings
                   (fst (apply_run_configuration ext (store h a) cfg)) stack))
            (no_update\<lparr>ConfigurationUpdate.settings := Some ps\<rparr>) False"] success
    show ?thesis by simp
  qed
qed

section \<open>Dropping the settings of an unresolvable key\<close>

lemma combine_settings_delete:
  "AList.delete key (combine_settings a b) =
   combine_settings (AList.delete key a) (AList.delete key b)"
proof -
  let ?f = "\<lambda>(k, inst) d.
             case map_of d k of
               None \<Rightarrow> AList.update k inst d
             | Some present \<Rightarrow> AList.update k (update_model present inst) d"
  have "AList.delete key (fold ?f b a) = fold ?f (AList.delete key b) (AList.delete key a)"
  proof (induction b arbitrary: a)
    case Nil
    then show ?case by simp
  next
    case (Cons x b)
    obtain k inst where x: "x = (k, inst)" by (cases x)
    show ?case
    proof (cases "k = key")
      case True
      have "AList.delete key (?f (k, inst) a) = AList.delete key a"
        using True by (simp add: delete_update_same split: option.split)
      with Cons.IH[of "?f (k, inst) a"] show ?thesis using True x by simp
    next
      case False
      have "AList.delete key (?f (k, inst) a) = ?f (k, inst) (AList.delete key a)"
        using False by (simp add: delete_update split: option.split)
      with Cons.IH[of "?f (k, inst) a"] show ?thesis using False x by simp
    qed
  qed
  then show ?thesis by (simp add: combine_settings_def)
qed

lemma configuration_without_idem [simp]:
  "configuration_without key (configuration_without key c) = configuration_without key c"
  by (simp add: configuration_without_def delete_idem)

lemma step_without_idem [simp]: "step_without key (step_without key s) = step_without key s"
  by (simp add: step_without_def)

lemma pipeline_without_idem [simp]:
  "pipeline_without key (pipeline_without key p) = pipeline_without key p"
  by (simp add: pipeline_without_def)

lemma update_without_idem [simp]:
  "update_without key (update_without key upd) = update_without key upd"
  by (cases "ConfigurationUpdate.settings upd") (simp_all add: update_without_def delete_idem)

lemma apply_update_without:
  "configuration_without key (apply_update m upd c) =
   configuration_without key (apply_update m (update_without key upd) (configuration_without key c))"
  by (cases "ConfigurationUpdate.settings upd")
     (simp_all add: configuration_without_def apply_update_def update_without_def
        combine_settings_delete delete_idem cong: option.case_cong if_cong)

lemma step_apply_configuration_without:
  "step_without key (step_apply_configuration s upd m) =
   step_without key (step_apply_configuration (step_without key s) (update_without key upd) m)"
  by (cases "ConfigurationUpdate.settings upd")
     (simp_all add: step_without_def step_apply_configuration_def configuration_without_def
        apply_update_def update_without_def combine_settings_delete delete_idem
        cong: option.case_cong if_cong)

lemma step_apply_configuration_agree:
  assumes "step_without key s = step_without key t"
  shows "step_without key (step_apply_configuration s upd m) =
         step_without key (step_apply_configuration t (update_without key upd) m)"
proof -
  have "step_without key (step_apply_configuration s upd m) =
        step_without key (step_apply_configuration (step_without key t) (update_without key upd) m)"
    using step_apply_configuration_without[of key s upd m] assms by simp
  also have "\<dots> = step_without key (step_apply_configuration t (update_without key upd) m)"
    using step_apply_configuration_without[of key t "update_without key upd" m] by simp
  finally show ?thesis .
qed

lemma pipeline_without_fields [simp]:
  "invocations (pipeline_without key p) = invocations p"
  "Pipeline.name (pipeline_without key p) = Pipeline.name p"
  "is_base_pipeline (pipeline_without key p) = is_base_pipeline p"
  "Pipeline.source (pipeline_without key p) = Pipeline.source p"
  "Pipeline.parameters (pipeline_without key p) = Pipeline.parameters p"
  "step_objects (pipeline_without key p) i = step_without key (step_objects p i)"
  "Pipeline.configuration (pipeline_without key p) =
     configuration_without key (Pipeline.configuration p)"
  by (simp_all add: pipeline_without_def)

lemma pipeline_without_agree:
  assumes "pipeline_without key p = pipeline_without key q"
  shows "invocations p = invocations q" and "Pipeline.name p = Pipeline.name q"
    and "is_base_pipeline p = is_base_pipeline q" and "Pipeline.source p = Pipeline.source q"
    and "Pipeline.parameters p = Pipeline.parameters q"
    and "step_without key (step_objects p i) = step_without key (step_objects q i)"
    and "configuration_without key (Pipeline.configuration p) =
         configuration_without key (Pipeline.configuration q)"
proof -
  from assms have a: "\<And>f. f (pipeline_without key p) = f (pipeline_without key q)" by simp
  from a[of invocations] show "invocations p = invocations q" by simp
  from a[of Pipeline.name] show "Pipeline.name p = Pipeline.name q" by simp
  from a[of is_base_pipeline] show "is_base_pipeline p = is_base_pipeline q" by simp
  from a[of Pipeline.source] show "Pipeline.source p = Pipeline.source q" by simp
  from a[of Pipeline.parameters] show "Pipeline.parameters p = Pipeline.parameters q" by simp
  from a[of "\<lambda>x. step_objects x i"]
  show "step_without key (step_objects p i) = step_without key (step_objects q i)" by simp
  from a[of Pipeline.configuration]
  show "configuration_without key (Pipeline.configuration p) =
         configuration_without key (Pipeline.configuration q)" by simp
qed

lemma pipeline_without_eqI:
  assumes "invocations p = invocations q" and "Pipeline.name p = Pipeline.name q"
    and "is_base_pipeline p = is_base_pipeline q" and "Pipeline.source p = Pipeline.source q"
    and "Pipeline.parameters p = Pipeline.parameters q"
    and "\<And>i. step_without key (step_objects p i) = step_without key (step_objects q i)"
    and "configuration_without key (Pipeline.configuration p) =
         configuration_without key (Pipeline.configuration q)"
  shows "pipeline_without key p = pipeline_without key q"
  using assms by (cases p; cases q) (simp add: pipeline_without_def)

lemma on_step_agree:
  assumes "pipeline_without key p = pipeline_without key q"
    and "\<And>s t. step_without key s = step_without key t \<Longrightarrow>
                 step_without key (f s) = step_without key (g t)"
  shows "pipeline_without key (on_step i f p) = pipeline_without key (on_step i g q)"
proof (rule pipeline_without_eqI)
  fix j
  from pipeline_without_agree(6)[OF assms(1)] assms(2)
  show "step_without key (step_objects (on_step i f p) j) =
        step_without key (step_objects (on_step i g q) j)"
    by (simp add: on_step_def)
qed (use pipeline_without_agree[OF assms(1)] in \<open>simp_all add: on_step_def\<close>)

lemma pipeline_configure_agree:
  assumes "pipeline_without key p = pipeline_without key q"
  shows "pipeline_without key (pipeline_configure p upd m) =
         pipeline_without key (pipeline_configure q (update_without key upd) m)"
proof (rule pipeline_without_eqI)
  have "configuration_without key (apply_update m upd (Pipeline.configuration p)) =
        configuration_without key (apply_update m (update_without key upd)
          (configuration_without key (Pipeline.configuration q)))"
    using apply_update_without[of key m upd "Pipeline.configuration p"]
      pipeline_without_agree(7)[OF assms] by simp
  also have "\<dots> = configuration_without key
      (apply_update m (update_without key upd) (Pipeline.configuration q))"
    using apply_update_without[of key m "update_without key upd" "Pipeline.configuration q"]
    by simp
  finally show "configuration_without key (Pipeline.configuration (pipeline_configure p upd m)) =
         configuration_without key
           (Pipeline.configuration (pipeline_configure q (update_without key upd) m))"
    by (simp add: pipeline_configure_def)
qed (use pipeline_without_agree[OF assms] in \<open>simp_all add: pipeline_configure_def\<close>)

lemma apply_step_configurations_agree:
  assumes "pipeline_without key p = pipeline_without key q"
  shows "snd (apply_step_configurations ext cs p) =
           snd (apply_step_configurations ext
                  (map (\<lambda>(name_of_step, upd). (name_of_step, update_without key upd)) cs) q) \<and>
         pipeline_without key (fst (apply_step_configurations ext cs p)) =
           pipeline_without key (fst (apply_step_configurations ext
                  (map (\<lambda>(name_of_step, upd). (name_of_step, update_without key upd)) cs) q))"
  using assms
proof (induction cs arbitrary: p q)
  case Nil
  then show ?case by simp
next
  case (Cons x cs)
  obtain n upd where x: "x = (n, upd)" by (cases x)
  have i: "invocations p = invocations q" by (rule pipeline_without_agree(1)[OF Cons.prems])
  show ?case
  proof (cases "map_of (invocations q) n")
    case None
    with i Cons.prems show ?thesis by (simp add: x)
  next
    case (Some iv)
    have "pipeline_without key
            (on_step (step iv) (\<lambda>s. step_apply_configuration s upd (merge_default ext)) p) =
          pipeline_without key
            (on_step (step iv)
               (\<lambda>s. step_apply_configuration s (update_without key upd) (merge_default ext)) q)"
    proof (rule on_step_agree[OF Cons.prems])
      fix s t assume "step_without key s = step_without key t"
      then show "step_without key (step_apply_configuration s upd (merge_default ext)) =
                 step_without key (step_apply_configuration t (update_without key upd)
                   (merge_default ext))"
        by (rule step_apply_configuration_agree)
    qed
    from Cons.IH[OF this] Some i show ?thesis by (simp add: x)
  qed
qed

lemma fold_on_step_agree:
  assumes "pipeline_without key p = pipeline_without key q"
    and "\<And>s t. step_without key s = step_without key t \<Longrightarrow>
                 step_without key (f s) = step_without key (f t)"
  shows "pipeline_without key (fold (\<lambda>iv. on_step (step iv) f) ivs p) =
         pipeline_without key (fold (\<lambda>iv. on_step (step iv) f) ivs q)"
  using assms(1)
proof (induction ivs arbitrary: p q)
  case Nil
  then show ?case by simp
next
  case (Cons iv ivs)
  have "pipeline_without key (on_step (step iv) f p) = pipeline_without key (on_step (step iv) f q)"
  proof (rule on_step_agree[OF Cons.prems])
    fix s t assume "step_without key s = step_without key t"
    then show "step_without key (f s) = step_without key (f t)" by (rule assms(2))
  qed
  from Cons.IH[OF this] show ?case by simp
qed

lemma configure_all_steps_agree:
  assumes "pipeline_without key p = pipeline_without key q"
    and "update_without key upd = upd"
  shows "pipeline_without key (configure_all_steps ext upd p) =
         pipeline_without key (configure_all_steps ext upd q)"
proof -
  have i: "invocations p = invocations q" by (rule pipeline_without_agree(1)[OF assms(1)])
  have a: "\<And>s t. step_without key s = step_without key t \<Longrightarrow>
          step_without key (step_apply_configuration s upd (merge_default ext)) =
          step_without key (step_apply_configuration t upd (merge_default ext))"
  proof -
    fix s t assume "step_without key s = step_without key t"
    from step_apply_configuration_agree[OF this, of upd "merge_default ext"]
    show "step_without key (step_apply_configuration s upd (merge_default ext)) =
          step_without key (step_apply_configuration t upd (merge_default ext))"
      by (simp only: assms(2))
  qed
  have "pipeline_without key
          (fold (\<lambda>iv. on_step (step iv)
                   (\<lambda>s. step_apply_configuration s upd (merge_default ext)))
             (map snd (invocations q)) p) =
        pipeline_without key
          (fold (\<lambda>iv. on_step (step iv)
                   (\<lambda>s. step_apply_configuration s upd (merge_default ext)))
             (map snd (invocations q)) q)"
    using assms(1) a
    by (rule fold_on_step_agree[of key p q
          "\<lambda>s. step_apply_configuration s upd (merge_default ext)"])
  then show ?thesis by (simp only: configure_all_steps_def i)
qed

lemma default_settings_update_agree:
  assumes "AList.delete key d = AList.delete key d'"
  shows "AList.delete key
           (case map_of d k of
              Some present \<Rightarrow> AList.update k (update_model ds present) d
            | None \<Rightarrow> AList.update k ds d) =
         AList.delete key
           (case map_of d' k of
              Some present \<Rightarrow> AList.update k (update_model ds present) d'
            | None \<Rightarrow> AList.update k ds d')"
proof (cases "k = key")
  case True
  show ?thesis unfolding True using assms
    by (cases "map_of d key"; cases "map_of d' key") (simp_all add: delete_update_same)
next
  case False
  have "map_of d k = map_of (AList.delete key d) k" using False by simp
  also have "\<dots> = map_of (AList.delete key d') k" by (simp only: assms)
  also have "\<dots> = map_of d' k" using False by simp
  finally have m: "map_of d k = map_of d' k" .
  show ?thesis unfolding m using assms False
    by (cases "map_of d' k") (simp_all add: delete_update)
qed

lemma stack_default_settings_loop_agree:
  assumes "AList.delete key d = AList.delete key d'"
  shows "map_sum id (AList.delete key) (stack_default_settings_loop comps d) =
         map_sum id (AList.delete key) (stack_default_settings_loop comps d')"
  using assms
proof (induction comps arbitrary: d d')
  case Nil
  then show ?case by simp
next
  case (Cons c comps)
  let ?k = "get_stack_component_setting_key c"
  show ?case
  proof (cases "settings_class c")
    case None
    with Cons.IH[OF Cons.prems] show ?thesis by simp
  next
    case (Some cls)
    show ?thesis
    proof (cases "get_default_settings c")
      case (Inl e)
      with Some show ?thesis by (simp add: Let_def)
    next
      case (Inr ds)
      let ?u = "\<lambda>d. case map_of d ?k of
                   Some present \<Rightarrow> AList.update ?k (update_model ds present) d
                 | None \<Rightarrow> AList.update ?k ds d"
      have u: "AList.delete key (?u d) = AList.delete key (?u d')"
        using Cons.prems by (rule default_settings_update_agree)
      have s: "\<And>x. stack_default_settings_loop (c # comps) x =
                 stack_default_settings_loop comps (?u x)"
        using Some Inr by (simp add: Let_def split: option.split)
      from Cons.IH[OF u] show ?thesis by (simp only: s)
    qed
  qed
qed

lemma apply_stack_default_settings_agree:
  assumes "pipeline_without key p = pipeline_without key q"
  shows "pipeline_without key (fst (apply_stack_default_settings p stack)) =
         pipeline_without key (fst (apply_stack_default_settings q stack))"
proof -
  let ?d = "Configuration.settings (Pipeline.configuration p)"
  let ?d' = "Configuration.settings (Pipeline.configuration q)"
  from pipeline_without_agree(7)[OF assms]
  have "Configuration.settings (configuration_without key (Pipeline.configuration p)) =
        Configuration.settings (configuration_without key (Pipeline.configuration q))"
    by simp
  then have d: "AList.delete key ?d = AList.delete key ?d'"
    by (simp add: configuration_without_def)
  note l = stack_default_settings_loop_agree[OF d, of "map snd (components stack)"]
  show ?thesis
  proof (cases "stack_default_settings_loop (map snd (components stack)) ?d")
    case (Inl e)
    with l obtain e' where
      "stack_default_settings_loop (map snd (components stack)) ?d' = Inl e'"
      by (cases "stack_default_settings_loop (map snd (components stack)) ?d'") auto
    with Inl assms show ?thesis by (simp add: apply_stack_default_settings_def)
  next
    case (Inr ps)
    with l obtain ps' where r: "stack_default_settings_loop (map snd (components stack)) ?d' = Inr ps'"
      and e: "AList.delete key ps = AList.delete key ps'"
      by (cases "stack_default_settings_loop (map snd (components stack)) ?d'") auto
    have "pipeline_without key
            (pipeline_configure p (no_update\<lparr>ConfigurationUpdate.settings := Some ps\<rparr>) False) =
          pipeline_without key
            (pipeline_configure q
               (update_without key (no_update\<lparr>ConfigurationUpdate.settings := Some ps\<rparr>)) False)"
      using assms by (rule pipeline_configure_agree)
    also have "\<dots> = pipeline_without key
            (pipeline_configure q
               (update_without key (no_update\<lparr>ConfigurationUpdate.settings := Some ps'\<rparr>)) False)"
      using e by (simp add: update_without_def)
    also have "\<dots> = pipeline_without key
            (pipeline_configure q (no_update\<lparr>ConfigurationUpdate.settings := Some ps'\<rparr>) False)"
      using pipeline_configure_agree[of key q q
          "no_update\<lparr>ConfigurationUpdate.settings := Some ps'\<rparr>" False] by simp
    finally show ?thesis using Inr r by (simp add: apply_stack_default_settings_def)
  qed
qed

lemma filter_loop_agree:
  assumes u: "\<And>settings_instance. \<exists>m. resolve ext stack key settings_instance = Inl (KeyError m)"
  shows "snd (filter_and_validate_loop ext lvl stack d v l) =
         snd (filter_and_validate_loop ext lvl stack (AList.delete key d) v l')"
proof (induction d arbitrary: v l l')
  case Nil
  then show ?case by simp
next
  case (Cons x d)
  obtain k inst where x: "x = (k, inst)" by (cases x)
  show ?case
  proof (cases "k = key")
    case True
    from u[of inst] obtain m where "resolve ext stack key inst = Inl (KeyError m)" ..
    with True Cons.IH[of v "l @ [NotIncludingSettings key]" l'] show ?thesis
      by (simp add: x)
  next
    case False
    show ?thesis
    proof (cases "resolve ext stack k inst")
      case (Inl e)
      show ?thesis
      proof (cases "\<exists>m. e = KeyError m")
        case True
        then obtain m where "e = KeyError m" ..
        with False Inl Cons.IH[of v "l @ [NotIncludingSettings k]" "l' @ [NotIncludingSettings k]"]
        show ?thesis by (simp add: x)
      next
        case n: False
        with False Inl show ?thesis by (cases e) (simp_all add: x)
      qed
    next
      case (Inr r)
      with False Cons.IH[of "AList.update k r v" l l'] show ?thesis by (simp add: x)
    qed
  qed
qed

lemma filter_agree:
  assumes u: "\<And>settings_instance. \<exists>m. resolve ext stack key settings_instance = Inl (KeyError m)"
    and d: "AList.delete key d = AList.delete key d'"
  shows "snd (filter_and_validate_settings ext d lvl stack) =
         snd (filter_and_validate_settings ext d' lvl stack)"
proof -
  have "snd (filter_and_validate_loop ext lvl stack d [] []) =
        snd (filter_and_validate_loop ext lvl stack (AList.delete key d) [] [])"
    by (rule filter_loop_agree[OF u])
  also have "\<dots> = snd (filter_and_validate_loop ext lvl stack d' [] [])"
    unfolding d by (rule filter_loop_agree[OF u, symmetric])
  finally show ?thesis by (simp add: filter_and_validate_settings_def)
qed

lemma run_configuration_without_fields [simp]:
  "run_name (run_configuration_without key cfg) = run_name cfg"
  "PipelineRunConfiguration.enable_cache (run_configuration_without key cfg) =
     PipelineRunConfiguration.enable_cache cfg"
  "PipelineRunConfiguration.enable_artifact_metadata (run_configuration_without key cfg) =
     PipelineRunConfiguration.enable_artifact_metadata cfg"
  "PipelineRunConfiguration.enable_artifact_visualization (run_configuration_without key cfg) =
     PipelineRunConfiguration.enable_artifact_visualization cfg"
  "PipelineRunConfiguration.extra (run_configuration_without key cfg) =
     PipelineRunConfiguration.extra cfg"
  "PipelineRunConfiguration.settings (run_configuration_without key cfg) =
     AList.delete key (PipelineRunConfiguration.settings cfg)"
  "PipelineRunConfiguration.steps (run_configuration_without key cfg) =
     map (\<lambda>(name_of_step, upd). (name_of_step, update_without key upd))
       (PipelineRunConfiguration.steps cfg)"
  by (simp_all add: run_configuration_without_def)

lemma apply_run_configuration_agree:
  assumes a: "pipeline_without key p = pipeline_without key q"
  shows "snd (apply_run_configuration ext p cfg) =
           snd (apply_run_configuration ext q (run_configuration_without key cfg))"
    and "pipeline_without key (fst (apply_run_configuration ext p cfg)) =
           pipeline_without key
             (fst (apply_run_configuration ext q (run_configuration_without key cfg)))"
proof -
  let ?u = "no_update
                 \<lparr>ConfigurationUpdate.enable_cache := PipelineRunConfiguration.enable_cache cfg,
                  ConfigurationUpdate.enable_artifact_metadata :=
                    PipelineRunConfiguration.enable_artifact_metadata cfg,
                  ConfigurationUpdate.enable_artifact_visualization :=
                    PipelineRunConfiguration.enable_artifact_visualization cfg,
                  ConfigurationUpdate.settings := Some (PipelineRunConfiguration.settings cfg),
                  ConfigurationUpdate.extra := Some (PipelineRunConfiguration.extra cfg)\<rparr>"
  let ?u' = "no_update
                 \<lparr>ConfigurationUpdate.enable_cache := PipelineRunConfiguration.enable_cache cfg,
                  ConfigurationUpdate.enable_artifact_metadata :=
                    PipelineRunConfiguration.enable_artifact_metadata cfg,
                  ConfigurationUpdate.enable_artifact_visualization :=
                    PipelineRunConfiguration.enable_artifact_visualization cfg,
                  ConfigurationUpdate.settings :=
                    Some (AList.delete key (PipelineRunConfiguration.settings cfg)),
                  ConfigurationUpdate.extra := Some (PipelineRunConfiguration.extra cfg)\<rparr>"
  let ?cs = "PipelineRunConfiguration.steps cfg"
  let ?cs' = "map (\<lambda>(name_of_step, upd). (name_of_step, update_without key upd)) ?cs"
  let ?c = "pipeline_configure p ?u (merge_default ext)"
  let ?c' = "pipeline_configure q ?u' (merge_default ext)"
  have u: "update_without key ?u = ?u'" by (simp add: update_without_def no_update_def)
  have c: "pipeline_without key ?c = pipeline_without key ?c'"
    using pipeline_configure_agree[OF a, of ?u "merge_default ext"] by (simp only: u)
  note s = apply_step_configurations_agree[OF c, of ext ?cs]
  obtain p1 r1 where p1: "apply_step_configurations ext ?cs ?c = (p1, r1)"
    by (cases "apply_step_configurations ext ?cs ?c")
  obtain q1 r1' where q1: "apply_step_configurations ext ?cs' ?c' = (q1, r1')"
    by (cases "apply_step_configurations ext ?cs' ?c'")
  from s p1 q1 have r: "r1' = r1" and pq: "pipeline_without key p1 = pipeline_without key q1"
    by simp_all
  let ?f1 = "\<lambda>x. if PipelineRunConfiguration.enable_cache cfg \<noteq> None
                     then configure_all_steps ext
                            (no_update\<lparr>ConfigurationUpdate.enable_cache :=
                                          PipelineRunConfiguration.enable_cache cfg\<rparr>) x
                     else x"
  let ?f2 = "\<lambda>x. if PipelineRunConfiguration.enable_artifact_metadata cfg \<noteq> None
                     then configure_all_steps ext
                            (no_update\<lparr>ConfigurationUpdate.enable_artifact_metadata :=
                                          PipelineRunConfiguration.enable_artifact_metadata cfg\<rparr>) x
                     else x"
  let ?f3 = "\<lambda>x. if PipelineRunConfiguration.enable_artifact_visualization cfg \<noteq> None
                     then configure_all_steps ext
                            (no_update\<lparr>ConfigurationUpdate.enable_artifact_visualization :=
                                          PipelineRunConfiguration.enable_artifact_visualization cfg\<rparr>) x
                     else x"
  have w: "\<And>upd. ConfigurationUpdate.settings upd = None \<Longrightarrow> update_without key upd = upd"
    by (simp add: update_without_def)
  have g1: "\<And>x y. pipeline_without key x = pipeline_without key y \<Longrightarrow>
              pipeline_without key (?f1 x) = pipeline_without key (?f1 y)"
  proof -
    fix x y assume xy: "pipeline_without key x = pipeline_without key y"
    have "update_without key (no_update\<lparr>ConfigurationUpdate.enable_cache :=
                                          PipelineRunConfiguration.enable_cache cfg\<rparr>) =
          no_update\<lparr>ConfigurationUpdate.enable_cache := PipelineRunConfiguration.enable_cache cfg\<rparr>"
      by (rule w) (simp add: no_update_def)
    from configure_all_steps_agree[OF xy this, of ext] xy
    show "pipeline_without key (?f1 x) = pipeline_without key (?f1 y)"
      by (cases "PipelineRunConfiguration.enable_cache cfg") simp_all
  qed
  have g2: "\<And>x y. pipeline_without key x = pipeline_without key y \<Longrightarrow>
              pipeline_without key (?f2 x) = pipeline_without key (?f2 y)"
  proof -
    fix x y assume xy: "pipeline_without key x = pipeline_without key y"
    have "update_without key (no_update\<lparr>ConfigurationUpdate.enable_artifact_metadata :=
                                          PipelineRunConfiguration.enable_artifact_metadata cfg\<rparr>) =
          no_update\<lparr>ConfigurationUpdate.enable_artifact_metadata := PipelineRunConfiguration.enable_artifact_metadata cfg\<rparr>"
      by (rule w) (simp add: no_update_def)
    from configure_all_steps_agree[OF xy this, of ext] xy
    show "pipeline_without key (?f2 x) = pipeline_without key (?f2 y)"
      by (cases "PipelineRunConfiguration.enable_artifact_metadata cfg") simp_all
  qed
  have g3: "\<And>x y. pipeline_without key x = pipeline_without key y \<Longrightarrow>
              pipeline_without key (?f3 x) = pipeline_without key (?f3 y)"
  proof -
    fix x y assume xy: "pipeline_without key x = pipeline_without key y"
    have "update_without key (no_update\<lparr>ConfigurationUpdate.enable_artifact_visualization :=
                                          PipelineRunConfiguration.enable_artifact_visualization cfg\<rparr>) =
          no_update\<lparr>ConfigurationUpdate.enable_artifact_visualization := PipelineRunConfiguration.enable_artifact_visualization cfg\<rparr>"
      by (rule w) (simp add: no_update_def)
    from configure_all_steps_agree[OF xy this, of ext] xy
    show "pipeline_without key (?f3 x) = pipeline_without key (?f3 y)"
      by (cases "PipelineRunConfiguration.enable_artifact_visualization cfg") simp_all
  qed
  have fin: "pipeline_without key (?f3 (?f2 (?f1 p1))) = pipeline_without key (?f3 (?f2 (?f1 q1)))"
    by (intro g3 g2 g1 pq)
  have e1: "apply_run_configuration ext p cfg =
              (case r1 of Inl e \<Rightarrow> (p1, Inl e) | Inr u \<Rightarrow> (?f3 (?f2 (?f1 p1)), Inr ()))"
    unfolding apply_run_configuration_def Let_def p1 by (cases r1) (simp_all only: prod.case sum.case)
  have e2: "apply_run_configuration ext q (run_configuration_without key cfg) =
              (case r1 of Inl e \<Rightarrow> (q1, Inl e) | Inr u \<Rightarrow> (?f3 (?f2 (?f1 q1)), Inr ()))"
    unfolding apply_run_configuration_def Let_def run_configuration_without_fields q1 r
    by (cases r1) (simp_all only: prod.case sum.case)
  show "snd (apply_run_configuration ext p cfg) =
           snd (apply_run_configuration ext q (run_configuration_without key cfg))"
    unfolding e1 e2 by (cases r1) simp_all
  show "pipeline_without key (fst (apply_run_configuration ext p cfg)) =
           pipeline_without key
             (fst (apply_run_configuration ext q (run_configuration_without key cfg)))"
    unfolding e1 e2 using pq fin by (cases r1) simp_all
qed

lemma step_apply_configuration_replace:
  "ConfigurationUpdate.settings upd = Some x \<Longrightarrow>
   step_apply_configuration (step_without key s) upd False = step_apply_configuration s upd False"
  by (simp add: step_apply_configuration_def step_without_def configuration_without_def
      apply_update_def cong: option.case_cong if_cong)

lemma step_without_agree:
  assumes "step_without key s = step_without key t"
  shows "BaseStep.source s = BaseStep.source t"
    and "Configuration.extra (BaseStep.configuration s) =
         Configuration.extra (BaseStep.configuration t)"
    and "Configuration.failure_hook_source (BaseStep.configuration s) =
         Configuration.failure_hook_source (BaseStep.configuration t)"
    and "Configuration.success_hook_source (BaseStep.configuration s) =
         Configuration.success_hook_source (BaseStep.configuration t)"
    and "AList.delete key (Configuration.settings (BaseStep.configuration s)) =
         AList.delete key (Configuration.settings (BaseStep.configuration t))"
proof -
  from assms have a: "\<And>f. f (step_without key s) = f (step_without key t)" by simp
  from a[of BaseStep.source] show "BaseStep.source s = BaseStep.source t"
    by (simp add: step_without_def)
  from a[of "\<lambda>x. Configuration.extra (BaseStep.configuration x)"]
  show "Configuration.extra (BaseStep.configuration s) =
         Configuration.extra (BaseStep.configuration t)"
    by (simp add: step_without_def configuration_without_def)
  from a[of "\<lambda>x. Configuration.failure_hook_source (BaseStep.configuration x)"]
  show "Configuration.failure_hook_source (BaseStep.configuration s) =
         Configuration.failure_hook_source (BaseStep.configuration t)"
    by (simp add: step_without_def configuration_without_def)
  from a[of "\<lambda>x. Configuration.success_hook_source (BaseStep.configuration x)"]
  show "Configuration.success_hook_source (BaseStep.configuration s) =
         Configuration.success_hook_source (BaseStep.configuration t)"
    by (simp add: step_without_def configuration_without_def)
  from a[of "\<lambda>x. Configuration.settings (BaseStep.configuration x)"]
  show "AList.delete key (Configuration.settings (BaseStep.configuration s)) =
         AList.delete key (Configuration.settings (BaseStep.configuration t))"
    by (simp add: step_without_def configuration_without_def)
qed

lemma compile_step_invocation_agree:
  assumes u: "\<And>settings_instance. \<exists>m. resolve ext stack key settings_instance = Inl (KeyError m)"
    and a: "step_without key (step_objects p (step iv)) = step_without key (step_objects q (step iv))"
  shows "snd (compile_step_invocation ext p iv ps pe stack fh sh) =
         snd (compile_step_invocation ext q iv ps pe stack fh sh)"
proof -
  let ?s = "step_objects p (step iv)"
  let ?t = "step_objects q (step iv)"
  let ?u1 = "no_update\<lparr>ConfigurationUpdate.settings := Some ps,
                         ConfigurationUpdate.extra := Some pe,
                         ConfigurationUpdate.failure_hook_source := fh,
                         ConfigurationUpdate.success_hook_source := sh\<rparr>"
  note g = step_without_agree[OF a]
  have sp: "get_step_spec p iv = get_step_spec q iv"
    by (simp add: get_step_spec_def g(1))
  have "step_apply_configuration ?s ?u1 False =
        step_apply_configuration (step_without key ?s) ?u1 False"
    by (rule step_apply_configuration_replace[symmetric]) simp
  also have "\<dots> = step_apply_configuration (step_without key ?t) ?u1 False"
    by (simp only: a)
  also have "\<dots> = step_apply_configuration ?t ?u1 False"
    by (rule step_apply_configuration_replace) simp
  finally have s1: "step_apply_configuration ?s ?u1 False = step_apply_configuration ?t ?u1 False" .
  have fl: "snd (filter_and_validate_settings ext
                   (Configuration.settings (BaseStep.configuration ?s)) STEP stack) =
            snd (filter_and_validate_settings ext
                   (Configuration.settings (BaseStep.configuration ?t)) STEP stack)"
    using u g(5) by (rule filter_agree)
  obtain lg r where f: "filter_and_validate_settings ext
                   (Configuration.settings (BaseStep.configuration ?s)) STEP stack = (lg, r)"
    by (cases "filter_and_validate_settings ext
                   (Configuration.settings (BaseStep.configuration ?s)) STEP stack")
  obtain lg' r' where f': "filter_and_validate_settings ext
                   (Configuration.settings (BaseStep.configuration ?t)) STEP stack = (lg', r')"
    by (cases "filter_and_validate_settings ext
                   (Configuration.settings (BaseStep.configuration ?t)) STEP stack")
  from fl f f' have r: "r' = r" by simp
  show ?thesis
    unfolding compile_step_invocation_def Let_def f f' r sp s1 g(2,3,4)
    by (cases r) (simp_all only: prod.case sum.case snd_conv)
qed

lemma compile_steps_agree:
  assumes u: "\<And>settings_instance. \<exists>m. resolve ext stack key settings_instance = Inl (KeyError m)"
    and a: "\<And>i. step_without key (step_objects p i) = step_without key (step_objects q i)"
    and c: "Pipeline.configuration p = Pipeline.configuration q"
  shows "snd (compile_steps ext p pd stack sorted_invocations acc l) =
         snd (compile_steps ext q pd stack sorted_invocations acc l')"
proof (induction sorted_invocations arbitrary: acc l l')
  case Nil
  then show ?case by simp
next
  case (Cons x sorted_invocations)
  obtain n iv where x: "x = (n, iv)" by (cases x)
  let ?cp = "compile_step_invocation ext p iv pd (Configuration.extra (Pipeline.configuration q))
               stack (Configuration.failure_hook_source (Pipeline.configuration q))
               (Configuration.success_hook_source (Pipeline.configuration q))"
  let ?cq = "compile_step_invocation ext q iv pd (Configuration.extra (Pipeline.configuration q))
               stack (Configuration.failure_hook_source (Pipeline.configuration q))
               (Configuration.success_hook_source (Pipeline.configuration q))"
  have e: "snd ?cp = snd ?cq" using u a by (rule compile_step_invocation_agree)
  obtain lg r where cp: "?cp = (lg, r)" by (cases ?cp)
  obtain lg' r' where cq: "?cq = (lg', r')" by (cases ?cq)
  from e cp cq have r: "r' = r" by simp
  show ?case
  proof (cases r)
    case (Inl e)
    with cp cq r show ?thesis by (simp add: x c)
  next
    case (Inr s)
    with cp cq r Cons.IH[of "AList.update n s acc" "l @ lg" "l' @ lg'"] show ?thesis
      by (simp add: x c)
  qed
qed

lemma apply_update_replace:
  "ConfigurationUpdate.settings upd = Some x \<Longrightarrow>
   apply_update False upd (configuration_without key c) = apply_update False upd c"
  by (simp add: configuration_without_def apply_update_def cong: option.case_cong if_cong)

lemma compute_pipeline_spec_cong:
  "is_base_pipeline p = is_base_pipeline q \<Longrightarrow> Pipeline.source p = Pipeline.source q \<Longrightarrow>
   Pipeline.parameters p = Pipeline.parameters q \<Longrightarrow>
   compute_pipeline_spec p specs = compute_pipeline_spec q specs"
  by (simp add: compute_pipeline_spec_def)

lemma compile_agree:
  assumes u: "\<And>settings_instance. \<exists>m. resolve ext stack key settings_instance = Inl (KeyError m)"
    and a: "pipeline_without key (store h a) = pipeline_without key (store h' a')"
  shows "snd (snd (compile ext a stack cfg h)) =
         snd (snd (compile ext a' stack (run_configuration_without key cfg) h'))"
proof -
  let ?cfg = "run_configuration_without key cfg"
  let ?p1 = "fst (apply_run_configuration ext (store h a) cfg)"
  let ?q1 = "fst (apply_run_configuration ext (store h' a') ?cfg)"
  let ?p2 = "fst (apply_stack_default_settings ?p1 stack)"
  let ?q2 = "fst (apply_stack_default_settings ?q1 stack)"
  let ?fp = "filter_and_validate_settings ext
               (Configuration.settings (Pipeline.configuration ?p2)) PIPELINE stack"
  let ?fq = "filter_and_validate_settings ext
               (Configuration.settings (Pipeline.configuration ?q2)) PIPELINE stack"
  let ?p3 = "\<lambda>ps. pipeline_configure ?p2 (no_update\<lparr>ConfigurationUpdate.settings := Some ps\<rparr>) False"
  let ?q3 = "\<lambda>ps. pipeline_configure ?q2 (no_update\<lparr>ConfigurationUpdate.settings := Some ps\<rparr>) False"
  have ar: "snd (apply_run_configuration ext (store h' a') ?cfg) =
            snd (apply_run_configuration ext (store h a) cfg)"
    by (rule apply_run_configuration_agree(1)[OF a, symmetric])
  have w1: "pipeline_without key ?p1 = pipeline_without key ?q1"
    by (rule apply_run_configuration_agree(2)[OF a])
  have w2: "pipeline_without key ?p2 = pipeline_without key ?q2"
    using w1 by (rule apply_stack_default_settings_agree)
  have rn: "run_name_check ?cfg = run_name_check cfg" by (simp add: run_name_check_def)
  have "Configuration.settings (configuration_without key (Pipeline.configuration ?p2)) =
        Configuration.settings (configuration_without key (Pipeline.configuration ?q2))"
    using pipeline_without_agree(7)[OF w2] by simp
  then have d: "AList.delete key (Configuration.settings (Pipeline.configuration ?q2)) =
                AList.delete key (Configuration.settings (Pipeline.configuration ?p2))"
    by (simp add: configuration_without_def)
  have fv: "snd ?fq = snd ?fp" using u d by (rule filter_agree)
  have cf: "\<And>ps. Pipeline.configuration (?q3 ps) = Pipeline.configuration (?p3 ps)"
  proof -
    fix ps
    let ?u = "no_update\<lparr>ConfigurationUpdate.settings := Some ps\<rparr>"
    have "apply_update False ?u (Pipeline.configuration ?q2) =
          apply_update False ?u (configuration_without key (Pipeline.configuration ?q2))"
      by (rule apply_update_replace[symmetric]) simp
    also have "\<dots> = apply_update False ?u (configuration_without key (Pipeline.configuration ?p2))"
      by (simp only: pipeline_without_agree(7)[OF w2])
    also have "\<dots> = apply_update False ?u (Pipeline.configuration ?p2)"
      by (rule apply_update_replace) simp
    finally show "Pipeline.configuration (?q3 ps) = Pipeline.configuration (?p3 ps)"
      by (simp add: pipeline_configure_def)
  qed
  have iv: "invocations (store h' a') = invocations (store h a)"
    by (rule pipeline_without_agree(1)[OF a, symmetric])
  have gs: "\<And>ps. get_sorted_invocations ext (?q3 ps) = get_sorted_invocations ext (?p3 ps)"
    by (rule get_sorted_invocations_cong) (simp add: iv)
  have so: "\<And>ps i. step_without key (step_objects (?q3 ps) i) =
                     step_without key (step_objects (?p3 ps) i)"
    using pipeline_without_agree(6)[OF w1] by simp
  have cs: "\<And>ps pd srt. snd (compile_steps ext (?q3 ps) pd stack srt [] (fst ?fq)) =
                          snd (compile_steps ext (?p3 ps) pd stack srt [] (fst ?fp))"
    using u so cf by (rule compile_steps_agree)
  have nm: "Pipeline.name (store h' a') = Pipeline.name (store h a)"
    by (rule pipeline_without_agree(2)[OF a, symmetric])
  have sp: "\<And>ps specs. compute_pipeline_spec (?q3 ps) specs = compute_pipeline_spec (?p3 ps) specs"
  proof (rule compute_pipeline_spec_cong)
    fix ps
    from pipeline_without_agree(3)[OF a]
    show "is_base_pipeline (?q3 ps) = is_base_pipeline (?p3 ps)"
      using pipeline_without_agree(3)[OF w2] by (simp add: pipeline_configure_def)
    show "Pipeline.source (?q3 ps) = Pipeline.source (?p3 ps)"
      using pipeline_without_agree(4)[OF w2] by (simp add: pipeline_configure_def)
    show "Pipeline.parameters (?q3 ps) = Pipeline.parameters (?p3 ps)"
      using pipeline_without_agree(5)[OF w2] by (simp add: pipeline_configure_def)
  qed
  show ?thesis
  proof (cases rule: compile_cases[of ext h a cfg stack])
    case (run_configuration e)
    then show ?thesis
      by (cases rule: compile_cases[of ext h' a' ?cfg stack]) (simp_all add: ar rn)
  next
    case (run_name e)
    then show ?thesis
      by (cases rule: compile_cases[of ext h' a' ?cfg stack]) (simp_all add: ar rn)
  next
    case (pipeline_settings e)
    then show ?thesis
      by (cases rule: compile_cases[of ext h' a' ?cfg stack]) (simp_all add: ar rn fv)
  next
    case (sorting ps e)
    then show ?thesis
      by (cases rule: compile_cases[of ext h' a' ?cfg stack]) (simp_all add: ar rn fv gs)
  next
    case (steps ps srt e)
    then show ?thesis
      by (cases rule: compile_cases[of ext h' a' ?cfg stack]) (simp_all add: ar rn fv gs cs)
  next
    case (requirements ps srt compiled e)
    then show ?thesis
      by (cases rule: compile_cases[of ext h' a' ?cfg stack]) (simp_all add: ar rn fv gs cs)
  next
    case (success ps srt compiled)
    then show ?thesis
      by (cases rule: compile_cases[of ext h' a' ?cfg stack])
         (simp_all add: ar rn fv gs cs cf sp nm)
  qed
qed

section \<open>The claims\<close>

text \<open>
  C1. For a pipeline whose dependency graph is acyclic, the sequence that
  \<open>_get_sorted_invocations\<close> returns is a topological order: every invocation of the
  pipeline appears in it exactly once, and each invocation comes strictly after every
  invocation named in its \<open>upstream_steps\<close>. The sequence is returned whenever every
  upstream reference is a key of the pipeline's invocations.
\<close>

theorem sorted_invocations_topological_order:
  assumes "iterates_sets ext" and "distinct (map fst (invocations p))"
    and "acyclic (dependency_graph p)"
  shows "(upstream_defined p \<longrightarrow> (\<exists>res. get_sorted_invocations ext p = Inr res)) \<and>
         (\<forall>res. get_sorted_invocations ext p = Inr res \<longrightarrow>
            distinct (map fst res) \<and> set res = set (invocations p) \<and>
            length res = length (invocations p) \<and>
            (\<forall>i<length res.
               StepInvocation.upstream_steps (snd (res ! i)) \<subseteq> fst ` set (take i res)))"
proof (cases "upstream_defined p")
  case False
  from not_defined_Inl[OF this, of ext] show ?thesis using False by auto
next
  case True
  let ?invs = "invocations p"
  from sorted_invocations_layers[OF assms(1,2) True] assms(3) obtain L where
    "set (concat L) = fst ` set ?invs" and "distinct (concat L)"
    and "\<forall>i<length (concat L). \<forall>iv. (concat L ! i, iv) \<in> set ?invs \<longrightarrow>
               StepInvocation.upstream_steps iv \<subseteq> set (take i (concat L))"
    and "get_sorted_invocations ext p =
                Inr (map (\<lambda>n. (n, the (map_of ?invs n))) (concat L))"
    by auto
  then obtain names where
    cont: "set names = fst ` set ?invs" and dist: "distinct names"
    and order: "\<forall>i<length names. \<forall>iv. (names ! i, iv) \<in> set ?invs \<longrightarrow>
               StepInvocation.upstream_steps iv \<subseteq> set (take i names)"
    and res: "get_sorted_invocations ext p =
                Inr (map (\<lambda>n. (n, the (map_of ?invs n))) names)"
    by blast
  let ?res = "map (\<lambda>n. (n, the (map_of ?invs n))) names"
  have fst_res: "map fst ?res = names" by (simp add: comp_def)
  have mem: "\<And>n. n \<in> set names \<Longrightarrow> (n, the (map_of ?invs n)) \<in> set ?invs"
  proof -
    fix n assume "n \<in> set names"
    with cont obtain iv where "(n, iv) \<in> set ?invs" by auto
    with assms(2) have "map_of ?invs n = Some iv" by simp
    with \<open>(n, iv) \<in> set ?invs\<close> show "(n, the (map_of ?invs n)) \<in> set ?invs" by simp
  qed
  have set_res: "set ?res = set ?invs"
  proof
    show "set ?res \<subseteq> set ?invs" using mem by auto
    show "set ?invs \<subseteq> set ?res"
    proof
      fix x assume x: "x \<in> set ?invs"
      obtain n iv where xn: "x = (n, iv)" by (cases x)
      with x assms(2) have "map_of ?invs n = Some iv" by simp
      moreover from x xn cont have "n \<in> set names" by force
      ultimately show "x \<in> set ?res" using xn by force
    qed
  qed
  have len: "length ?res = length ?invs"
  proof -
    have d1: "distinct ?res" using dist by (simp add: distinct_map inj_on_def)
    have d2: "distinct ?invs" using assms(2) by (simp add: distinct_map)
    have "length ?res = card (set ?res)" by (rule distinct_card[OF d1, symmetric])
    also have "\<dots> = card (set ?invs)" by (simp only: set_res)
    also have "\<dots> = length ?invs" by (rule distinct_card[OF d2])
    finally show ?thesis .
  qed
  have ord: "\<forall>i<length ?res.
               StepInvocation.upstream_steps (snd (?res ! i)) \<subseteq> fst ` set (take i ?res)"
  proof (intro allI impI)
    fix i assume i: "i < length ?res"
    then have "(names ! i, the (map_of ?invs (names ! i))) \<in> set ?invs"
      by (intro mem) simp
    with order i have "StepInvocation.upstream_steps (the (map_of ?invs (names ! i)))
        \<subseteq> set (take i names)" by simp
    moreover have "fst ` set (take i ?res) = set (take i names)"
      by (simp add: take_map image_image)
    ultimately show "StepInvocation.upstream_steps (snd (?res ! i)) \<subseteq> fst ` set (take i ?res)"
      using i by simp
  qed
  show ?thesis
  proof (intro conjI impI allI)
    show "\<exists>res. get_sorted_invocations ext p = Inr res" using res by blast
  next
    fix r assume "get_sorted_invocations ext p = Inr r"
    with res have r: "r = ?res" by simp
    show "distinct (map fst r)" unfolding r using fst_res dist by (simp only:)
    show "set r = set ?invs" unfolding r by (rule set_res)
    show "length r = length ?invs" unfolding r by (rule len)
    fix i assume "i < length r"
    with ord show "StepInvocation.upstream_steps (snd (r ! i)) \<subseteq> fst ` set (take i r)"
      unfolding r by blast
  qed
qed


theorem sorted_invocations_topological_order_witness:
  "iterates_sets example_externals \<and> distinct (map fst (invocations example_pipeline)) \<and>
   acyclic (dependency_graph example_pipeline) \<and> upstream_defined example_pipeline \<and>
   (\<exists>res. get_sorted_invocations example_externals example_pipeline = Inr res \<and>
      map fst res = [''A'', ''B''] \<and> set res = set (invocations example_pipeline) \<and>
      (\<forall>i<length res.
         StepInvocation.upstream_steps (snd (res ! i)) \<subseteq> fst ` set (take i res)))"
proof -
  have d: "distinct (map fst (invocations example_pipeline))"
    by (simp add: example_pipeline_def)
  have u: "upstream_defined example_pipeline"
    by (simp add: upstream_defined_def example_pipeline_def)
  have r: "map_sum id (map fst) (get_sorted_invocations example_externals example_pipeline)
             = Inr [''A'', ''B'']"
    by (simp add: example_pipeline_def example_externals_def get_sorted_invocations_def
        verify_upstream_steps_def topsorted_layers_def layering.simps resolved_def getitem_def
        reverse_dag_def)
  from sorted_invocations_topological_order[OF example_iterates_sets d example_acyclic] u r
  show ?thesis using example_iterates_sets d example_acyclic
    by (cases "get_sorted_invocations example_externals example_pipeline") auto
qed

text \<open>
  C2 (as amended). For a pipeline whose dependency graph contains a cycle and whose
  upstream references are all defined, \<open>_get_sorted_invocations\<close> and \<open>compile_spec\<close>
  terminate and fail with a fatal structural error, the \<open>RuntimeError\<close> of the layering,
  which could not place every node. \<open>compile\<close> terminates and returns no result: it fails
  with the error of the first of its earlier stages that fails (applying the run
  configuration, then verifying the run name, then validating the pipeline-level settings),
  and with that structural error when none of them fails.
\<close>

theorem cyclic_pipeline_fails:
  assumes "iterates_sets ext" and "distinct (map fst (invocations (store h a)))"
    and "upstream_defined (store h a)" and "\<not> acyclic (dependency_graph (store h a))"
  shows "\<exists>residual. residual \<noteq> [] \<and> set residual \<subseteq> set (map fst (invocations (store h a))) \<and>
           get_sorted_invocations ext (store h a) = Inl (RuntimeError (CycleDetected residual)) \<and>
           snd (compile_spec ext a h) = Inl (RuntimeError (CycleDetected residual)) \<and>
           snd (snd (compile ext a stack cfg h)) =
             (case snd (apply_run_configuration ext (store h a) cfg) of
                Inl e \<Rightarrow> Inl e
              | Inr u \<Rightarrow>
             (case run_name_check cfg of
                Inl e \<Rightarrow> Inl e
              | Inr u \<Rightarrow>
             (case snd (filter_and_validate_settings ext
                     (Configuration.settings (Pipeline.configuration
                        (fst (apply_stack_default_settings
                                (fst (apply_run_configuration ext (store h a) cfg)) stack))))
                     PIPELINE stack) of
                Inl e \<Rightarrow> Inl e
              | Inr pipeline_settings \<Rightarrow> Inl (RuntimeError (CycleDetected residual)))))"
proof -
  let ?p = "store h a"
  from sorted_invocations_layers[OF assms(1,2,3)] assms(4) obtain L R where
    cont: "set (concat L) \<union> set R = fst ` set (invocations ?p)" and R: "R \<noteq> []"
    and gs: "get_sorted_invocations ext ?p = Inl (RuntimeError (CycleDetected R))"
    by auto
  from cont have sub: "set R \<subseteq> set (map fst (invocations ?p))" by auto
  from gs have cs: "snd (compile_spec ext a h) = Inl (RuntimeError (CycleDetected R))"
    by (simp add: compile_spec_result)
  from compile_sorting_failure_stages[OF gs, of stack cfg] R sub gs cs show ?thesis by blast
qed

theorem cyclic_pipeline_fails_witness:
  "iterates_sets example_externals \<and> distinct (map fst (invocations (store cyclic_heap 0))) \<and>
   upstream_defined (store cyclic_heap 0) \<and> \<not> acyclic (dependency_graph (store cyclic_heap 0)) \<and>
   snd (compile_spec example_externals 0 cyclic_heap) =
     Inl (RuntimeError (CycleDetected [''A'', ''B''])) \<and>
   snd (snd (compile example_externals 0 example_stack example_run_configuration cyclic_heap)) =
     Inl (RuntimeError (CycleDetected [''A'', ''B''])) \<and>
   snd (apply_run_configuration example_externals (store cyclic_heap 0) ghost_run_configuration) =
     Inl (KeyError (NoStepWithName ''ghost'')) \<and>
   snd (snd (compile example_externals 0 example_stack ghost_run_configuration cyclic_heap)) =
     Inl (KeyError (NoStepWithName ''ghost''))"
proof -
  have d: "distinct (map fst (invocations (store cyclic_heap 0)))"
    by (simp add: example_defs)
  have u: "upstream_defined (store cyclic_heap 0)"
    by (simp add: upstream_defined_def example_defs)
  have n: "\<not> acyclic (dependency_graph (store cyclic_heap 0))"
    using cyclic_pipeline_not_acyclic by (simp add: cyclic_heap_def)
  have c: "snd (snd (compile example_externals 0 example_stack example_run_configuration
                       cyclic_heap)) = Inl (RuntimeError (CycleDetected [''A'', ''B'']))"
    by (simp add: compiler_defs example_defs)
  have s: "snd (compile_spec example_externals 0 cyclic_heap) =
     Inl (RuntimeError (CycleDetected [''A'', ''B'']))"
    by (simp add: compiler_defs example_defs)
  have g: "snd (apply_run_configuration example_externals (store cyclic_heap 0)
                  ghost_run_configuration) = Inl (KeyError (NoStepWithName ''ghost''))"
    by (simp add: compiler_defs example_defs)
  from cyclic_pipeline_fails[OF example_iterates_sets d u n, of example_stack
      ghost_run_configuration] g
  have k: "snd (snd (compile example_externals 0 example_stack ghost_run_configuration
                       cyclic_heap)) = Inl (KeyError (NoStepWithName ''ghost''))"
    by auto
  from cyclic_pipeline_fails[OF example_iterates_sets d u n, of example_stack
      example_run_configuration] example_iterates_sets d u n c s g k
  show ?thesis by simp
qed

text \<open>
  C2 as stated fails: with a run configuration that names a step the pipeline does not have,
  \<open>compile\<close> of a cyclic pipeline fails with the \<open>KeyError\<close> of the run configuration,
  not with a structural error.
\<close>

theorem cyclic_pipeline_counterexample:
  "upstream_defined (store cyclic_heap 0) \<and> \<not> acyclic (dependency_graph (store cyclic_heap 0)) \<and>
   snd (snd (compile example_externals 0 example_stack ghost_run_configuration cyclic_heap)) =
     Inl (KeyError (NoStepWithName ''ghost''))"
  using cyclic_pipeline_not_acyclic
  by (simp add: upstream_defined_def compiler_defs example_defs)

text \<open>
  C3 (as amended). For a pipeline with an invocation whose \<open>upstream_steps\<close> holds a name
  that is not a key of the invocations, \<open>compile_spec\<close> fails with a fatal structural error
  whose message names the missing steps, and returns no spec. \<open>compile\<close> returns no
  deployment: it fails with the error of the first of its earlier stages that fails (applying
  the run configuration, then verifying the run name, then validating the pipeline-level
  settings), and with that structural error when none of them fails.
\<close>

theorem undefined_upstream_step_fails:
  assumes "\<not> upstream_defined (store h a)"
  shows "\<exists>n iv. (n, iv) \<in> set (invocations (store h a)) \<and>
           StepInvocation.upstream_steps iv - set (map fst (invocations (store h a))) \<noteq> {} \<and>
           snd (compile_spec ext a h) =
             Inl (RuntimeError (InvalidUpstreamSteps
                    (StepInvocation.upstream_steps iv - set (map fst (invocations (store h a))))
                    (set (map fst (invocations (store h a)))))) \<and>
           snd (snd (compile ext a stack cfg h)) =
             (case snd (apply_run_configuration ext (store h a) cfg) of
                Inl e \<Rightarrow> Inl e
              | Inr u \<Rightarrow>
             (case run_name_check cfg of
                Inl e \<Rightarrow> Inl e
              | Inr u \<Rightarrow>
             (case snd (filter_and_validate_settings ext
                     (Configuration.settings (Pipeline.configuration
                        (fst (apply_stack_default_settings
                                (fst (apply_run_configuration ext (store h a) cfg)) stack))))
                     PIPELINE stack) of
                Inl e \<Rightarrow> Inl e
              | Inr pipeline_settings \<Rightarrow>
                  Inl (RuntimeError (InvalidUpstreamSteps
                    (StepInvocation.upstream_steps iv - set (map fst (invocations (store h a))))
                    (set (map fst (invocations (store h a)))))))))"
proof -
  let ?p = "store h a"
  from assms have "\<not> list_all (\<lambda>(n, iv). StepInvocation.upstream_steps iv
      \<subseteq> set (map fst (invocations ?p))) (invocations ?p)"
    by (simp add: upstream_defined_def)
  from build_dag_Inl[OF this] obtain n iv where
    m: "(n, iv) \<in> set (invocations ?p)"
    and ne: "StepInvocation.upstream_steps iv - set (map fst (invocations ?p)) \<noteq> {}"
    and bd: "\<And>ext acc. build_dag ext ?p (invocations ?p) acc =
        Inl (RuntimeError (InvalidUpstreamSteps
          (StepInvocation.upstream_steps iv - set (map fst (invocations ?p)))
          (set (map fst (invocations ?p)))))" by blast
  let ?e = "RuntimeError (InvalidUpstreamSteps
          (StepInvocation.upstream_steps iv - set (map fst (invocations ?p)))
          (set (map fst (invocations ?p))))"
  have gs: "get_sorted_invocations ext ?p = Inl ?e"
    by (simp add: get_sorted_invocations_def bd)
  then have cs: "snd (compile_spec ext a h) = Inl ?e"
    by (simp add: compile_spec_result)
  from compile_sorting_failure_stages[OF gs, of stack cfg] m ne cs show ?thesis by blast
qed

theorem undefined_upstream_step_fails_witness:
  "\<not> upstream_defined (store dangling_heap 0) \<and>
   snd (compile_spec example_externals 0 dangling_heap) =
     Inl (RuntimeError (InvalidUpstreamSteps {''C''} {''A'', ''B''})) \<and>
   snd (snd (compile example_externals 0 example_stack example_run_configuration dangling_heap)) =
     Inl (RuntimeError (InvalidUpstreamSteps {''C''} {''A'', ''B''})) \<and>
   snd (apply_run_configuration example_externals (store dangling_heap 0)
          ghost_run_configuration) = Inl (KeyError (NoStepWithName ''ghost'')) \<and>
   snd (snd (compile example_externals 0 example_stack ghost_run_configuration dangling_heap)) =
     Inl (KeyError (NoStepWithName ''ghost''))"
proof -
  have u: "\<not> upstream_defined (store dangling_heap 0)"
    by (simp add: upstream_defined_def example_defs)
  have c: "snd (snd (compile example_externals 0 example_stack example_run_configuration
                       dangling_heap)) =
             Inl (RuntimeError (InvalidUpstreamSteps {''C''} {''A'', ''B''}))"
    by (simp add: compiler_defs example_defs insert_commute)
  have s: "snd (compile_spec example_externals 0 dangling_heap) =
     Inl (RuntimeError (InvalidUpstreamSteps {''C''} {''A'', ''B''}))"
    by (simp add: compiler_defs example_defs insert_commute)
  have g: "snd (apply_run_configuration example_externals (store dangling_heap 0)
                  ghost_run_configuration) = Inl (KeyError (NoStepWithName ''ghost''))"
    by (simp add: compiler_defs example_defs)
  from undefined_upstream_step_fails[OF u, of example_externals example_stack
      ghost_run_configuration] g
  have k: "snd (snd (compile example_externals 0 example_stack ghost_run_configuration
                       dangling_heap)) = Inl (KeyError (NoStepWithName ''ghost''))"
    by auto
  from undefined_upstream_step_fails[OF u, of example_externals example_stack
      example_run_configuration] u c s g k
  show ?thesis by simp
qed

text \<open>
  C3 as stated fails: with a run configuration that names a step the pipeline does not have,
  \<open>compile\<close> fails with the \<open>KeyError\<close> of the run configuration, whose message does not
  name the missing upstream step.
\<close>

theorem undefined_upstream_step_counterexample:
  "\<not> upstream_defined (store dangling_heap 0) \<and>
   snd (snd (compile example_externals 0 example_stack ghost_run_configuration dangling_heap)) =
     Inl (KeyError (NoStepWithName ''ghost''))"
  by (simp add: upstream_defined_def compiler_defs example_defs)

text \<open>
  C6. \<open>compile\<close> and \<open>compile_spec\<close> leave the caller's pipeline as it was, with its
  invocations, its step objects and their configurations, whether the call succeeds or
  fails: every object that was allocated before the call is unchanged after it, since both
  work on the deep copy that they allocate first.
\<close>

theorem compile_leaves_caller_pipeline:
  assumes "b < next_free h"
  shows "store (fst (compile ext a stack cfg h)) b = store h b \<and>
         store (fst (compile_spec ext a h)) b = store h b"
  using assms by (simp add: compile_frame compile_spec_frame)

theorem compile_leaves_caller_pipeline_witness:
  "(0::nat) < next_free example_heap \<and>
   store (fst (compile example_externals 0 example_stack example_run_configuration
                 example_heap)) 0 = store example_heap 0 \<and>
   store (fst (compile example_externals 0 example_stack ghost_run_configuration
                 example_heap)) 0 = store example_heap 0 \<and>
   store (fst (compile_spec example_externals 0 example_heap)) 0 = store example_heap 0"
proof -
  have a: "(0::nat) < next_free example_heap" by (simp add: example_heap_def)
  from compile_leaves_caller_pipeline[OF a, of example_externals 0 example_stack
      example_run_configuration]
    compile_leaves_caller_pipeline[OF a, of example_externals 0 example_stack
      ghost_run_configuration] a
  show ?thesis by simp
qed

text \<open>
  C4. When the run configuration sets \<open>enable_cache\<close>, \<open>enable_artifact_metadata\<close> or
  \<open>enable_artifact_visualization\<close> to a value other than \<open>None\<close>, every compiled step of
  the deployment has that value for the flag, whatever the step or the pipeline had
  configured: a run-level \<open>enable_cache=False\<close> overrides a step's own \<open>True\<close>.
\<close>

theorem run_level_flags_override:
  assumes c: "snd (snd (compile ext a stack cfg h)) = Inr (deployment, pipeline_spec)"
    and m: "(n, s) \<in> set (step_configurations deployment)"
  shows "(PipelineRunConfiguration.enable_cache cfg \<noteq> None \<longrightarrow>
            Configuration.enable_cache (Step.config s) =
              PipelineRunConfiguration.enable_cache cfg) \<and>
         (PipelineRunConfiguration.enable_artifact_metadata cfg \<noteq> None \<longrightarrow>
            Configuration.enable_artifact_metadata (Step.config s) =
              PipelineRunConfiguration.enable_artifact_metadata cfg) \<and>
         (PipelineRunConfiguration.enable_artifact_visualization cfg \<noteq> None \<longrightarrow>
            Configuration.enable_artifact_visualization (Step.config s) =
              PipelineRunConfiguration.enable_artifact_visualization cfg)"
proof -
  from compile_success_steps(2)[OF c m] obtain iv where
    iv: "(n, iv) \<in> set (invocations (store h a))"
    and f: "Configuration.enable_cache (Step.config s) =
             Configuration.enable_cache (BaseStep.configuration
               (step_objects (fst (apply_run_configuration ext (store h a) cfg)) (step iv)))"
       "Configuration.enable_artifact_metadata (Step.config s) =
             Configuration.enable_artifact_metadata (BaseStep.configuration
               (step_objects (fst (apply_run_configuration ext (store h a) cfg)) (step iv)))"
       "Configuration.enable_artifact_visualization (Step.config s) =
             Configuration.enable_artifact_visualization (BaseStep.configuration
               (step_objects (fst (apply_run_configuration ext (store h a) cfg)) (step iv)))"
    by blast
  from c have "snd (apply_run_configuration ext (store h a) cfg) = Inr ()"
    by (cases rule: compile_cases[of ext h a cfg stack]) auto
  then have ar: "apply_run_configuration ext (store h a) cfg =
      (fst (apply_run_configuration ext (store h a) cfg), Inr ())"
    by (cases "apply_run_configuration ext (store h a) cfg") simp
  from apply_run_configuration_flags[OF ar iv] f show ?thesis by auto
qed

theorem run_level_flags_override_witness:
  "\<exists>deployment pipeline_spec s.
     snd (snd (compile example_externals 0 example_stack example_run_configuration example_heap)) =
       Inr (deployment, pipeline_spec) \<and>
     (''A'', s) \<in> set (step_configurations deployment) \<and>
     Configuration.enable_cache (BaseStep.configuration example_step) = Some True \<and>
     PipelineRunConfiguration.enable_cache example_run_configuration = Some False \<and>
     Configuration.enable_cache (Step.config s) = Some False"
proof -
  have e: "map_sum id (\<lambda>(deployment, pipeline_spec). map fst (step_configurations deployment))
             (snd (snd (compile example_externals 0 example_stack example_run_configuration
                          example_heap))) = Inr [''A'', ''B'']"
    by (simp add: compiler_defs example_defs)
  then obtain deployment pipeline_spec where
    c: "snd (snd (compile example_externals 0 example_stack example_run_configuration
                    example_heap)) = Inr (deployment, pipeline_spec)"
    and n: "map fst (step_configurations deployment) = [''A'', ''B'']"
    by (cases "snd (snd (compile example_externals 0 example_stack example_run_configuration
                    example_heap))") auto
  from n obtain s where m: "(''A'', s) \<in> set (step_configurations deployment)"
    by (cases "step_configurations deployment") auto
  from run_level_flags_override[OF c m] c m show ?thesis
    by (auto simp: example_run_configuration_def example_step_def)
qed

text \<open>
  C7. Compiling the same pipeline, stack and run configuration twice, the second time on the
  heap that the first call left, gives the same outcome: the same error, or pipeline specs
  and compiled steps that are equal field for field, with the steps in the same order. This
  holds whatever order the two runs iterate their sets in, and each step spec lists its
  upstream steps sorted and without repetition.
\<close>

theorem compile_twice_equal_specs:
  assumes "iterates_sets ext" and "iterates_sets ext'" and "same_collaborators ext ext'"
    and "distinct (map fst (invocations (store h a)))" and "a < next_free h"
    and "compile ext a stack cfg h = (h1, log1, r1)"
    and "compile ext' a stack cfg h1 = (h2, log2, r2)"
  shows "map_sum id (\<lambda>(deployment, pipeline_spec). (step_configurations deployment, pipeline_spec)) r1 =
         map_sum id (\<lambda>(deployment, pipeline_spec). (step_configurations deployment, pipeline_spec)) r2 \<and>
         (\<forall>deployment pipeline_spec. r1 = Inr (deployment, pipeline_spec) \<longrightarrow>
            (\<forall>step_spec\<in>set (PipelineSpec.steps pipeline_spec).
               sorted (StepSpec.upstream_steps step_spec) \<and>
               distinct (StepSpec.upstream_steps step_spec)))"
proof -
  have h1: "h1 = fst (compile ext a stack cfg h)" using assms(6) by simp
  have "store h1 a = store h a" unfolding h1 using assms(5) by (rule compile_frame)
  then have "snd (compile ext' a stack cfg h1) = snd (compile ext' a stack cfg h)"
    by (rule compile_depends_on_pipeline)
  moreover from assms(7) have "snd (snd (compile ext' a stack cfg h1)) = r2" by simp
  ultimately have r2: "r2 = snd (snd (compile ext' a stack cfg h))" by simp
  from assms(6) have r1: "r1 = snd (snd (compile ext a stack cfg h))" by simp
  have eq: "map_sum id (\<lambda>(deployment, pipeline_spec). (step_configurations deployment, pipeline_spec)) r1 =
         map_sum id (\<lambda>(deployment, pipeline_spec). (step_configurations deployment, pipeline_spec)) r2"
    unfolding r1 r2 using assms(1-4) by (rule compile_environment)
  have so: "\<forall>deployment pipeline_spec. r1 = Inr (deployment, pipeline_spec) \<longrightarrow>
            (\<forall>step_spec\<in>set (PipelineSpec.steps pipeline_spec).
               sorted (StepSpec.upstream_steps step_spec) \<and>
               distinct (StepSpec.upstream_steps step_spec))"
  proof (intro allI impI ballI)
    fix deployment pipeline_spec step_spec
    assume r: "r1 = Inr (deployment, pipeline_spec)"
      and m: "step_spec \<in> set (PipelineSpec.steps pipeline_spec)"
    from r r1 have c: "snd (snd (compile ext a stack cfg h)) = Inr (deployment, pipeline_spec)"
      by simp
    from m compile_success_steps(1)[OF c] obtain n s where
      ns: "(n, s) \<in> set (step_configurations deployment)" and ss: "step_spec = spec s"
      by auto
    from compile_success_steps(2)[OF c ns] obtain iv :: StepInvocation where
      "StepSpec.upstream_steps (spec s) = sorted_list_of_set (StepInvocation.upstream_steps iv)"
      by blast
    with ss show "sorted (StepSpec.upstream_steps step_spec) \<and>
               distinct (StepSpec.upstream_steps step_spec)" by simp
  qed
  from eq so show ?thesis by (rule conjI)
qed

theorem compile_twice_equal_specs_witness:
  "iterates_sets example_externals \<and> iterates_sets other_externals \<and>
   same_collaborators example_externals other_externals \<and>
   distinct (map fst (invocations (store example_heap 0))) \<and> (0::nat) < next_free example_heap \<and>
   (\<exists>h1 log1 r1 h2 log2 r2.
      compile example_externals 0 example_stack example_run_configuration example_heap =
        (h1, log1, r1) \<and>
      compile other_externals 0 example_stack example_run_configuration h1 = (h2, log2, r2) \<and>
      map_sum id (\<lambda>(deployment, pipeline_spec). (step_configurations deployment, pipeline_spec)) r1 =
      map_sum id (\<lambda>(deployment, pipeline_spec). (step_configurations deployment, pipeline_spec)) r2)"
proof -
  have i: "iterates_sets other_externals"
    by (simp add: iterates_sets_def other_externals_def example_externals_def)
  have s: "same_collaborators example_externals other_externals"
    by (simp add: same_collaborators_def other_externals_def)
  have d: "distinct (map fst (invocations (store example_heap 0)))"
    by (simp add: example_heap_def example_pipeline_def)
  have a: "(0::nat) < next_free example_heap" by (simp add: example_heap_def)
  obtain h1 log1 r1 where
    c1: "compile example_externals 0 example_stack example_run_configuration example_heap =
           (h1, log1, r1)"
    by (cases "compile example_externals 0 example_stack example_run_configuration example_heap")
  obtain h2 log2 r2 where
    c2: "compile other_externals 0 example_stack example_run_configuration h1 = (h2, log2, r2)"
    by (cases "compile other_externals 0 example_stack example_run_configuration h1")
  from compile_twice_equal_specs[OF example_iterates_sets i s d a c1 c2] c1 c2
    example_iterates_sets i s d a
  show ?thesis by blast
qed



text \<open>
  C10. \<open>_filter_and_validate_settings\<close> resolves the key of an entry before it checks the
  level of the settings. An entry whose key does not resolve is dropped with a notice and the
  loop goes on with the entries that remain, also when the \<open>LEVEL\<close> of its settings object
  excludes the level it was given on. A failure of the function is an exception other than
  \<open>KeyError\<close> that the resolver raised, or the \<open>TypeError\<close> of the level check for an
  entry whose key has resolved, raised for the resolved settings.
\<close>

theorem level_check_after_resolution:
  "(resolve ext stack key inst = Inl (KeyError m) \<and> lvl \<notin> LEVEL inst \<longrightarrow>
      filter_and_validate_loop ext lvl stack ((key, inst) # rest) validated logged =
      filter_and_validate_loop ext lvl stack rest validated
        (logged @ [NotIncludingSettings key]) \<and>
      snd (filter_and_validate_settings ext (pre @ (key, inst) # rest) lvl stack) =
      snd (filter_and_validate_settings ext (pre @ rest) lvl stack)) \<and>
   (snd (filter_and_validate_settings ext settings_dict lvl stack) = Inl e \<longrightarrow>
      (\<exists>(k, i)\<in>set settings_dict.
         (resolve ext stack k i = Inl e \<and> (\<forall>m'. e \<noteq> KeyError m')) \<or>
         (\<exists>resolved_instance. resolve ext stack k i = Inr resolved_instance \<and>
            lvl \<notin> LEVEL resolved_instance \<and>
            e = TypeError (UnsupportedLevel (py_class resolved_instance) lvl))))"
proof (intro conjI impI)
  assume a: "resolve ext stack key inst = Inl (KeyError m) \<and> lvl \<notin> LEVEL inst"
  then show "filter_and_validate_loop ext lvl stack ((key, inst) # rest) validated logged =
      filter_and_validate_loop ext lvl stack rest validated
        (logged @ [NotIncludingSettings key])" by simp
  from a have "resolve ext stack key inst = Inl (KeyError m)" by simp
  then show "snd (filter_and_validate_settings ext (pre @ (key, inst) # rest) lvl stack) =
      snd (filter_and_validate_settings ext (pre @ rest) lvl stack)"
    by (rule filter_drop(1))
next
  assume f: "snd (filter_and_validate_settings ext settings_dict lvl stack) = Inl e"
  obtain lg where "filter_and_validate_loop ext lvl stack settings_dict [] [] = (lg, Inl e)"
    using f by (cases "filter_and_validate_loop ext lvl stack settings_dict [] []")
      (simp add: filter_and_validate_settings_def)
  from filter_loop_failure[OF this]
  show "\<exists>(k, i)\<in>set settings_dict.
         (resolve ext stack k i = Inl e \<and> (\<forall>m'. e \<noteq> KeyError m')) \<or>
         (\<exists>resolved_instance. resolve ext stack k i = Inr resolved_instance \<and>
            lvl \<notin> LEVEL resolved_instance \<and>
            e = TypeError (UnsupportedLevel (py_class resolved_instance) lvl))"
    by blast
qed

theorem level_check_after_resolution_witness:
  "resolve example_externals example_stack ''orchestrator.kubernetes'' kubernetes_settings =
     Inl (KeyError (Message ''orchestrator.kubernetes'')) \<and>
   STEP \<notin> LEVEL kubernetes_settings \<and>
   filter_and_validate_settings example_externals
     [(''orchestrator.kubernetes'', kubernetes_settings), (''docker'', docker_settings)]
     STEP example_stack =
     ([NotIncludingSettings ''orchestrator.kubernetes''], Inr [(''docker'', docker_settings)]) \<and>
   snd (filter_and_validate_settings example_externals [(''docker'', kubernetes_settings)]
          STEP example_stack) =
     Inl (TypeError (UnsupportedLevel ''KubernetesOrchestratorSettings'' STEP)) \<and>
   resolve example_externals example_stack ''docker'' kubernetes_settings =
     Inr kubernetes_settings"
proof -
  have r: "resolve example_externals example_stack ''orchestrator.kubernetes''
             kubernetes_settings = Inl (KeyError (Message ''orchestrator.kubernetes''))"
    by (simp add: example_externals_def)
  have n: "STEP \<notin> LEVEL kubernetes_settings" by (simp add: kubernetes_settings_def)
  have d: "filter_and_validate_settings example_externals
     [(''orchestrator.kubernetes'', kubernetes_settings), (''docker'', docker_settings)]
     STEP example_stack =
     ([NotIncludingSettings ''orchestrator.kubernetes''], Inr [(''docker'', docker_settings)])"
    by (simp add: filter_and_validate_settings_def example_externals_def docker_settings_def)
  have t: "snd (filter_and_validate_settings example_externals [(''docker'', kubernetes_settings)]
          STEP example_stack) =
     Inl (TypeError (UnsupportedLevel ''KubernetesOrchestratorSettings'' STEP))"
    by (simp add: filter_and_validate_settings_def example_externals_def kubernetes_settings_def)
  have k: "resolve example_externals example_stack ''docker'' kubernetes_settings =
     Inr kubernetes_settings"
    by (simp add: example_externals_def)
  from level_check_after_resolution[of example_externals example_stack
      "''orchestrator.kubernetes''" kubernetes_settings "Message ''orchestrator.kubernetes''"
      STEP "[(''docker'', docker_settings)]" "[]" "[]" "[]"
      "[(''docker'', kubernetes_settings)]"
      "TypeError (UnsupportedLevel ''KubernetesOrchestratorSettings'' STEP)"] r n d t k
  show ?thesis by blast
qed

end
